theory Spec2Isabelle
  imports Complex_Main
begin

section \<open>JavaScript strings\<close>

text \<open>
  The front end (\<^verbatim>\<open>static/js/main.js\<close>) works on JavaScript strings. A string is
  modelled as a list of 8-bit characters, read as the code units \<open>0x00\<close> to \<open>0xFF\<close>;
  code units beyond that range are not represented. The string methods the code calls
  are written out below with the results JavaScript gives.
\<close>

definition quote :: char where
  "quote = CHR 0x27"

definition backslash :: char where
  "backslash = CHR 0x5C"

definition newline :: char where
  "newline = CHR 0x0A"

text \<open>
  \<^verbatim>\<open>String.prototype.trim\<close> and the class \<^verbatim>\<open>\s\<close> remove or match the same
  characters: tab, line feed, vertical tab, form feed, carriage return, space and the
  no-break space.
\<close>

definition is_space :: "char \<Rightarrow> bool" where
  "is_space c = (c \<in> set [CHR 0x09, CHR 0x0A, CHR 0x0B, CHR 0x0C, CHR 0x0D, CHR 0x20, CHR 0xA0])"

definition is_digit :: "char \<Rightarrow> bool" where
  "is_digit c = (c \<in> set ''0123456789'')"

text \<open>
  The canonical form the flag \<^verbatim>\<open>i\<close> compares: the upper-case letter of an ASCII
  letter, and the character itself otherwise (a character outside ASCII never
  canonicalises to an ASCII one).
\<close>

definition canon :: "char \<Rightarrow> char" where
  "canon c =
     (case map_of (zip ''abcdefghijklmnopqrstuvwxyz'' ''ABCDEFGHIJKLMNOPQRSTUVWXYZ'') c of
        Some u \<Rightarrow> u
      | None \<Rightarrow> c)"

definition trim :: "string \<Rightarrow> string" where
  "trim s = rev (dropWhile is_space (rev (dropWhile is_space s)))"

fun startsWith :: "string \<Rightarrow> string \<Rightarrow> bool" where
  "startsWith s [] = True"
| "startsWith [] (p # ps) = False"
| "startsWith (x # xs) (p # ps) = (x = p \<and> startsWith xs ps)"

fun includes_str :: "string \<Rightarrow> string \<Rightarrow> bool" where
  "includes_str [] p = startsWith [] p"
| "includes_str (x # xs) p = (startsWith (x # xs) p \<or> includes_str xs p)"

text \<open>\<^verbatim>\<open>s.split(c)\<close> for a one-character separator: never the empty array.\<close>

fun split :: "char \<Rightarrow> string \<Rightarrow> string list" where
  "split c [] = [[]]"
| "split c (x # xs) =
     (if x = c then [] # split c xs
      else (case split c xs of
              [] \<Rightarrow> [[x]]
            | y # ys \<Rightarrow> (x # y) # ys))"

text \<open>
  \<^verbatim>\<open>s.replace(/p/g, r)\<close> for a pattern \<open>p\<close> that is a fixed, non-empty text:
  every occurrence, left to right, without overlap.
\<close>

fun replaceAll :: "string \<Rightarrow> string \<Rightarrow> string \<Rightarrow> string" where
  "replaceAll p r [] = []"
| "replaceAll p r (x # xs) =
     (if startsWith (x # xs) p then r @ replaceAll p r (drop (length p - 1) xs)
      else x # replaceAll p r xs)"

text \<open>
  A value that may be \<^verbatim>\<open>undefined\<close> or \<^verbatim>\<open>null\<close> is an option; a string is
  truthy when it is there and not empty.
\<close>

fun truthy :: "string option \<Rightarrow> bool" where
  "truthy None = False"
| "truthy (Some s) = (s \<noteq> [])"

section \<open>Regular expressions\<close>

text \<open>
  The regular expressions of the file use literals, character classes, sequence,
  alternation, greedy repetition of a character class and one capturing group.
  The matcher is the backtracking one of the language: \<open>step\<close> lists the ways a
  pattern can match at the front of the input, in the order backtracking tries them,
  each as the text captured by the group so far and the input left over.
\<close>

datatype cclass =
    Digit
  | WhiteSpace
  | Range char char
  | NotChar char
  | Dot

fun in_class :: "cclass \<Rightarrow> char \<Rightarrow> bool" where
  "in_class Digit c = is_digit c"
| "in_class WhiteSpace c = is_space c"
| "in_class (Range lo hi) c = ((of_char lo :: nat) \<le> of_char c \<and> (of_char c :: nat) \<le> of_char hi)"
| "in_class (NotChar x) c = (c \<noteq> x)"
| "in_class Dot c = (c \<noteq> CHR 0x0A \<and> c \<noteq> CHR 0x0D)"

datatype regex =
    Lit string
  | Cls cclass
  | Seq regex regex
  | Alt regex regex
  | Star cclass
  | Plus cclass
  | Rep nat nat cclass
  | Group regex

type_synonym mstate = "string option \<times> string"

text \<open>
  A character of the pattern against one of the input: the same character, or with
  the flag \<^verbatim>\<open>i\<close> the same canonical form. \<open>lit ci l s\<close> reads the literal \<open>l\<close> at
  the front of \<open>s\<close> and gives the rest.
\<close>

definition char_eq :: "bool \<Rightarrow> char \<Rightarrow> char \<Rightarrow> bool" where
  "char_eq ci p x = (if ci then canon p = canon x else p = x)"

fun lit :: "bool \<Rightarrow> string \<Rightarrow> string \<Rightarrow> string option" where
  "lit ci [] s = Some s"
| "lit ci (p # ps) [] = None"
| "lit ci (p # ps) (x # xs) = (if char_eq ci p x then lit ci ps xs else None)"

text \<open>
  \<open>consume c lo hi s\<close>: the inputs left after a greedy run of between \<open>lo\<close> and
  \<open>hi\<close> characters of the class \<open>c\<close>, the longest run first.
\<close>

fun consume :: "cclass \<Rightarrow> nat \<Rightarrow> nat \<Rightarrow> string \<Rightarrow> string list" where
  "consume c lo hi [] = (if lo = 0 then [[]] else [])"
| "consume c lo hi (x # xs) =
     (if 0 < hi \<and> in_class c x then consume c (lo - 1) (hi - 1) xs else [])
     @ (if lo = 0 then [x # xs] else [])"

fun step :: "bool \<Rightarrow> regex \<Rightarrow> mstate \<Rightarrow> mstate list" where
  "step ci (Lit l) (g, s) = (case lit ci l s of None \<Rightarrow> [] | Some r \<Rightarrow> [(g, r)])"
| "step ci (Cls c) (g, s) =
     (case s of [] \<Rightarrow> [] | x # xs \<Rightarrow> if in_class c x then [(g, xs)] else [])"
| "step ci (Seq a b) st = concat (map (step ci b) (step ci a st))"
| "step ci (Alt a b) st = step ci a st @ step ci b st"
| "step ci (Star c) (g, s) = map (Pair g) (consume c 0 (length s) s)"
| "step ci (Plus c) (g, s) = map (Pair g) (consume c 1 (length s) s)"
| "step ci (Rep lo hi c) (g, s) = map (Pair g) (consume c lo hi s)"
| "step ci (Group r) (g, s) =
     map (\<lambda>(g', r'). (Some (take (length s - length r') s), r')) (step ci r (g, s))"

text \<open>
  The result of \<^verbatim>\<open>s.match(r)\<close> (no flag \<^verbatim>\<open>g\<close>): the matched text
  \<^verbatim>\<open>m[0]\<close> and the group \<^verbatim>\<open>m[1]\<close>, at the leftmost position where the
  pattern matches, or nothing (\<^verbatim>\<open>null\<close>).
\<close>

record match_result =
  whole :: string
  group1 :: "string option"

definition match_here :: "bool \<Rightarrow> regex \<Rightarrow> string \<Rightarrow> match_result option" where
  "match_here ci r s =
     (case step ci r (None, s) of
        [] \<Rightarrow> None
      | (g, rest) # _ \<Rightarrow> Some \<lparr>whole = take (length s - length rest) s, group1 = g\<rparr>)"

fun match :: "bool \<Rightarrow> regex \<Rightarrow> string \<Rightarrow> match_result option" where
  "match ci r [] = match_here ci r []"
| "match ci r (x # xs) =
     (case match_here ci r (x # xs) of
        Some m \<Rightarrow> Some m
      | None \<Rightarrow> match ci r xs)"

text \<open>\<^verbatim>\<open>r.test(s)\<close> for a pattern without anchors.\<close>

definition test :: "bool \<Rightarrow> regex \<Rightarrow> string \<Rightarrow> bool" where
  "test ci r s = (match ci r s \<noteq> None)"

text \<open>
  \<^verbatim>\<open>/^r$/.test(s)\<close>: some way of matching \<open>r\<close> at the start leaves nothing over.
\<close>

definition test_anchored :: "bool \<Rightarrow> regex \<Rightarrow> string \<Rightarrow> bool" where
  "test_anchored ci r s = list_ex (\<lambda>(g, rest). rest = []) (step ci r (None, s))"

text \<open>
  The texts a pattern matches, said without the matcher: the usual reading of the
  notation. It is not part of the program; the properties below use it to say what
  \<open>step\<close>, \<open>test\<close> and \<open>match\<close> compute.
\<close>

fun lang :: "bool \<Rightarrow> regex \<Rightarrow> string \<Rightarrow> bool" where
  "lang ci (Lit l) w = list_all2 (char_eq ci) l w"
| "lang ci (Cls c) w = (\<exists>x. w = [x] \<and> in_class c x)"
| "lang ci (Seq a b) w = (\<exists>u v. w = u @ v \<and> lang ci a u \<and> lang ci b v)"
| "lang ci (Alt a b) w = (lang ci a w \<or> lang ci b w)"
| "lang ci (Star c) w = (\<forall>x\<in>set w. in_class c x)"
| "lang ci (Plus c) w = (w \<noteq> [] \<and> (\<forall>x\<in>set w. in_class c x))"
| "lang ci (Rep lo hi c) w = (lo \<le> length w \<and> length w \<le> hi \<and> (\<forall>x\<in>set w. in_class c x))"
| "lang ci (Group r) w = lang ci r w"

section \<open>The field normaliser: \<^verbatim>\<open>renderLogCard\<close>\<close>

text \<open>The patterns of \<^verbatim>\<open>renderLogCard\<close>, in the order they appear.\<close>

definition ip_token_re :: regex where
  \<comment> \<open>\<^verbatim>\<open>\d{1,3}(\.\d{1,3}){3}\<close>, the three copies written out; the code never reads its
      group, so none is marked. With anchors it tests a token, without them it searches
      a message.\<close>
  "ip_token_re =
     Seq (Rep 1 3 Digit)
      (Seq (Seq (Lit ''.'') (Rep 1 3 Digit))
        (Seq (Seq (Lit ''.'') (Rep 1 3 Digit))
          (Seq (Lit ''.'') (Rep 1 3 Digit))))"

definition method_re :: regex where
  \<comment> \<open>\<^verbatim>\<open>/^(GET|POST|PUT|DELETE|HEAD)$/i\<close>\<close>
  "method_re =
     Alt (Lit ''GET'') (Alt (Lit ''POST'') (Alt (Lit ''PUT'') (Alt (Lit ''DELETE'') (Lit ''HEAD''))))"

definition status_re :: regex where
  \<comment> \<open>\<^verbatim>\<open>/^[1-5]\d{2}$/\<close>\<close>
  "status_re = Seq (Cls (Range CHR ''1'' CHR ''5'')) (Rep 2 2 Digit)"

definition country_re :: regex where
  \<comment> \<open>\<^verbatim>\<open>/^[A-Z][a-z]+$/\<close>\<close>
  "country_re = Seq (Cls (Range CHR ''A'' CHR ''Z'')) (Plus (Range CHR ''a'' CHR ''z''))"

definition keyed_re :: "string \<Rightarrow> regex \<Rightarrow> regex" where
  \<comment> \<open>\<^verbatim>\<open>/'KEY':\s*'(BODY)'/\<close>\<close>
  "keyed_re key body =
     Seq (Lit (quote # key @ [quote, CHR '':'']))
      (Seq (Star WhiteSpace)
        (Seq (Lit [quote]) (Seq (Group body) (Lit [quote]))))"

definition event_id_re :: regex where
  \<comment> \<open>\<^verbatim>\<open>/'Event ID':\s*'(\d+)'/\<close>\<close>
  "event_id_re = keyed_re ''Event ID'' (Plus Digit)"

definition source_re :: regex where
  \<comment> \<open>\<^verbatim>\<open>/'Source':\s*'(\d+)'/\<close>\<close>
  "source_re = keyed_re ''Source'' (Plus Digit)"

definition message_re :: regex where
  \<comment> \<open>\<^verbatim>\<open>/'Message':\s*'([^']*)'/\<close>\<close>
  "message_re = keyed_re ''Message'' (Star (NotChar quote))"

definition task_category_re :: regex where
  \<comment> \<open>\<^verbatim>\<open>/'Task Category':\s*'([^']*)'/\<close>\<close>
  "task_category_re = keyed_re ''Task Category'' (Star (NotChar quote))"

text \<open>
  The card \<^verbatim>\<open>renderLogCard\<close> returns is an HTML text built from a template; the
  model keeps the values the template is filled with. For a web access line these
  are the tokens found (each as it stands in the message, not trimmed) and the
  colour of the status badge.
\<close>

record web_card =
  country :: "string option"
  ip :: "string option"
  http_method :: "string option"
  status :: "string option"
  statusColor :: string

record win_card =
  eventId :: string
  summary :: string
  realText :: string

datatype card =
    WebAccess web_card
  | WindowsEvent win_card
  | Generic

definition WIN_EVENT_DESCRIPTIONS :: "string \<rightharpoonup> string" where
  "WIN_EVENT_DESCRIPTIONS = map_of
     [(''4624'', ''Successful Logon''),
      (''4625'', ''Failed Logon (Invalid Credentials)''),
      (''4634'', ''Account Logged Off''),
      (''4648'', ''Logon using explicit credentials''),
      (''4672'', ''Special Privileges Assigned (Admin Login)''),
      (''4720'', ''New User Account Created''),
      (''4722'', ''User Account Enabled''),
      (''4723'', ''User Account Password Change Attempt''),
      (''4724'', ''User Account Password Reset Attempt''),
      (''4725'', ''User Account Disabled''),
      (''4726'', ''User Account Deleted''),
      (''4728'', ''User added to Security-enabled Global Group''),
      (''4732'', ''User added to Security-enabled Local Group'')]"

definition find_ip :: "string list \<Rightarrow> string option" where
  "find_ip parts = find (\<lambda>p. test_anchored False ip_token_re (trim p)) parts"

definition find_method :: "string list \<Rightarrow> string option" where
  "find_method parts = find (\<lambda>p. test_anchored True method_re (trim p)) parts"

definition find_status :: "string list \<Rightarrow> string option" where
  "find_status parts = find (\<lambda>p. test_anchored False status_re (trim p)) parts"

definition country_ok :: "string \<Rightarrow> bool" where
  "country_ok p =
     (test_anchored False country_re (trim p) \<and> 3 < length p
      \<and> \<not> includes_str p ''Chrome'' \<and> \<not> includes_str p ''Safari'')"

definition find_country :: "string list \<Rightarrow> string option" where
  "find_country parts = find country_ok parts"

definition status_color :: "string option \<Rightarrow> string" where
  "status_color st =
     (case st of
        None \<Rightarrow> ''secondary''
      | Some s \<Rightarrow>
          if s = [] then ''secondary''
          else (let c1 = (if startsWith s ''2'' then ''success'' else ''secondary'');
                    c2 = (if startsWith s ''4'' then ''warning'' else c1);
                    c3 = (if startsWith s ''5'' then ''danger'' else c2)
                in c3))"

text \<open>The first branch: a message with a comma, read as a web access line.\<close>

definition web_access :: "string \<Rightarrow> web_card option" where
  "web_access message =
     (if includes_str message '','' then
        (let parts = split CHR '','' message;
             i = find_ip parts;
             m = find_method parts;
             s = find_status parts;
             c = find_country parts
         in if truthy i \<or> truthy m \<or> truthy s
            then Some \<lparr>country = c, ip = i, http_method = m, status = s, statusColor = status_color s\<rparr>
            else None)
      else None)"

definition win_shaped :: "string \<Rightarrow> bool" where
  "win_shaped message =
     (startsWith (trim message) [CHR ''{'', quote]
      \<and> (includes_str message ''Event ID'' \<or> includes_str message (quote # ''Source'' @ [quote, CHR '':''])))"

text \<open>
  The body of the \<^verbatim>\<open>try\<close> block, statement by statement. Calling a method of
  \<^verbatim>\<open>undefined\<close> raises a \<^verbatim>\<open>TypeError\<close>. The two match results are read behind
  a test for \<^verbatim>\<open>null\<close>; the group read from them, and the first element of
  \<^verbatim>\<open>split('\n')\<close>, are used without a test.
\<close>

datatype error = TypeError

definition eventId_of :: "string \<Rightarrow> string" where
  \<comment> \<open>the id is only used as a key and in templates, where \<^verbatim>\<open>undefined\<close> reads as
      the text \<^verbatim>\<open>undefined\<close>\<close>
  "eventId_of message =
     (let eventIdMatch =
            (case match False event_id_re message of
               Some m \<Rightarrow> Some m
             | None \<Rightarrow> match False source_re message)
      in case eventIdMatch of
           None \<Rightarrow> ''Unknown''
         | Some m \<Rightarrow> (case group1 m of Some g \<Rightarrow> g | None \<Rightarrow> ''undefined''))"

definition taskRaw_of :: "string \<Rightarrow> string option" where
  \<comment> \<open>\<^verbatim>\<open>taskMatch ? taskMatch[1] : ''\<close>, nothing standing for \<^verbatim>\<open>undefined\<close>\<close>
  "taskRaw_of message =
     (let taskMatch =
            (case match False message_re message of
               Some m \<Rightarrow> Some m
             | None \<Rightarrow> match False task_category_re message)
      in case taskMatch of
           None \<Rightarrow> Some []
         | Some m \<Rightarrow> group1 m)"

definition unescape :: "string \<Rightarrow> string" where
  \<comment> \<open>\<^verbatim>\<open>.replace(/\\r\\n/g, '\n').replace(/\\t/g, '    ').replace(/\\'/g, "'")\<close>\<close>
  "unescape taskRaw =
     replaceAll [backslash, quote] [quote]
       (replaceAll [backslash, CHR ''t''] ''    ''
         (replaceAll [backslash, CHR ''r'', backslash, CHR ''n''] [newline] taskRaw))"

definition realText_of :: "string \<Rightarrow> error + string" where
  "realText_of message =
     (case taskRaw_of message of
        None \<Rightarrow> Inl TypeError
      | Some taskRaw \<Rightarrow> Inr (unescape taskRaw))"

definition synthesized :: "string \<Rightarrow> error + string" where
  \<comment> \<open>\<^verbatim>\<open>realText.split('\n')[0].substring(0, 80) + (realText.length > 80 ? '...' : '')\<close>\<close>
  "synthesized t =
     (case split newline t of
        [] \<Rightarrow> Inl TypeError
      | first # _ \<Rightarrow> Inr (take 80 first @ (if 80 < length t then ''...'' else [])))"

definition win_event :: "string \<Rightarrow> error + win_card" where
  "win_event message =
     (let eid = eventId_of message;
          table = (case WIN_EVENT_DESCRIPTIONS eid of Some d \<Rightarrow> d | None \<Rightarrow> [])
      in case realText_of message of
           Inl e \<Rightarrow> Inl e
         | Inr t \<Rightarrow>
             if table \<noteq> []
             then Inr \<lparr>eventId = eid, summary = table, realText = t\<rparr>
             else (case synthesized t of
                     Inl e \<Rightarrow> Inl e
                   | Inr s \<Rightarrow>
                       Inr \<lparr>eventId = eid,
                            summary = (if s = [] \<or> length (trim s) < 5
                                       then ''Windows Event '' @ eid else s),
                            realText = t\<rparr>))"

text \<open>
  The whole function: the web access branch, then the Windows event branch, whose
  \<^verbatim>\<open>catch\<close> is empty, so that an error there falls through to the generic card.
\<close>

definition renderLogCard :: "string \<Rightarrow> card" where
  "renderLogCard message =
     (case web_access message of
        Some w \<Rightarrow> WebAccess w
      | None \<Rightarrow>
          if win_shaped message then
            (case win_event message of
               Inr e \<Rightarrow> WindowsEvent e
             | Inl err \<Rightarrow> Generic)
          else Generic)"

section \<open>The explanation and mitigation engines\<close>

text \<open>
  A fixed text of the program may hold a pictograph, a character beyond \<open>0xFF\<close>. Such
  a character is written as the bytes of its UTF-8 form; the code only copies these
  texts, it never inspects them.
\<close>

definition magnifier :: string where
  "magnifier = [CHR 0xF0, CHR 0x9F, CHR 0x94, CHR 0x8D]"

definition bulb :: string where
  "bulb = [CHR 0xF0, CHR 0x9F, CHR 0x92, CHR 0xA1]"

definition collision :: string where
  "collision = [CHR 0xF0, CHR 0x9F, CHR 0x92, CHR 0xA5]"

definition warning_sign :: string where
  "warning_sign = [CHR 0xE2, CHR 0x9A, CHR 0xA0, CHR 0xEF, CHR 0xB8, CHR 0x8F]"

definition high_voltage :: string where
  "high_voltage = [CHR 0xE2, CHR 0x9A, CHR 0xA1]"

definition check_mark :: string where
  "check_mark = [CHR 0xE2, CHR 0x9C, CHR 0x94]"

record mitigation_rule =
  mit_regex :: regex
  mit_action :: string
  mit_command :: string

record explanation_rule =
  exp_regex :: regex
  exp_text :: string

definition credentials_re :: regex where
  \<comment> \<open>\<^verbatim>\<open>/failed password|authentication failure|bad credentials/i\<close>\<close>
  "credentials_re =
     Alt (Lit ''failed password'') (Alt (Lit ''authentication failure'') (Lit ''bad credentials''))"

definition code_re :: "string \<Rightarrow> regex" where
  \<comment> \<open>\<^verbatim>\<open>/code\s*N|status\s*N/i\<close>\<close>
  "code_re n =
     Alt (Seq (Lit ''code'') (Seq (Star WhiteSpace) (Lit n)))
         (Seq (Lit ''status'') (Seq (Star WhiteSpace) (Lit n)))"

definition account_re :: regex where
  \<comment> \<open>\<^verbatim>\<open>/user add|group add/i\<close>\<close>
  "account_re = Alt (Lit ''user add'') (Lit ''group add'')"

definition block_rule :: string where
  "block_rule = ''netsh advfirewall firewall add rule name=''"

definition block_tail :: string where
  "block_tail = '' dir=in action=block remoteip=''"

definition dquote :: char where
  "dquote = CHR 0x22"

definition MITIGATION_MATRIC :: "mitigation_rule list" where
  "MITIGATION_MATRIC =
     [\<lparr>mit_regex = credentials_re, mit_action = ''Block IP'',
        mit_command = block_rule @ [dquote] @ ''Block IP'' @ [dquote] @ block_tail\<rparr>,
      \<lparr>mit_regex = code_re ''404'', mit_action = ''Block Scanning IP'',
        mit_command = block_rule @ [dquote] @ ''Block Scanner'' @ [dquote] @ block_tail\<rparr>,
      \<lparr>mit_regex = account_re, mit_action = ''Review Privileges'',
        mit_command = ''netplwiz''\<rparr>,
      \<lparr>mit_regex = Alt (Lit ''sudo'') (Lit ''admin''), mit_action = ''Audit Session'',
        mit_command = ''query user''\<rparr>,
      \<lparr>mit_regex = Alt (Lit ''sql injection'') (Alt (Lit ''union select'') (Lit ''script>'')),
        mit_action = ''Block Web Attack'',
        mit_command = block_rule @ [dquote] @ ''Block SQLi'' @ [dquote] @ block_tail\<rparr>]"

definition EXPLANATIONS :: "explanation_rule list" where
  "EXPLANATIONS =
     [\<lparr>exp_regex =
          Alt (Seq (Lit ''code'') (Seq (Star WhiteSpace) (Lit ''404'')))
           (Alt (Seq (Lit ''status'') (Seq (Star WhiteSpace) (Lit ''404'')))
             (Seq (Lit ''http/1.'')
               (Seq (Cls Digit) (Seq (Lit [dquote]) (Seq (Star WhiteSpace) (Lit ''404'')))))),
        exp_text = magnifier @ '' Web Scanning: The visitor is looking for files that do not exist (e.g., trying to find admin pages).''\<rparr>,
      \<lparr>exp_regex = code_re ''500'',
        exp_text = ''Internal Server Error (Crash or Bug).''\<rparr>,
      \<lparr>exp_regex = credentials_re,
        exp_text = bulb @ '' Possible Brute Force Attempt: Someone is failing to login.''\<rparr>,
      \<lparr>exp_regex = Alt (Lit ''segmentation fault'') (Lit ''segfault''),
        exp_text = collision @ '' Critical Error: A program crashed due to memory issues.''\<rparr>,
      \<lparr>exp_regex = Alt (Lit ''connection refused'') (Lit ''connection timed out''),
        exp_text = ''Network Error: Server is blocking requests or is down.''\<rparr>,
      \<lparr>exp_regex = Seq (Lit ''usb'') (Seq (Star Dot) (Lit ''scan'')),
        exp_text = ''Hardware Event: USB Device scanning.''\<rparr>,
      \<lparr>exp_regex = account_re,
        exp_text = warning_sign @ '' Account Change: A new user or group was created.''\<rparr>,
      \<lparr>exp_regex = Lit ''sudo'',
        exp_text = ''Admin Action: Someone executed a Super-User command.''\<rparr>]"

text \<open>
  The two loops of \<^verbatim>\<open>updateAnomalyList\<close> over the rule lists: each leaves at
  the first rule whose pattern the message passes (\<^verbatim>\<open>break\<close>). The explanation
  is the rule's text, set in a fixed frame; the mitigation is the rule's action and
  its command, to which the first dotted quad of the message is appended when there
  is one.
\<close>

fun find_explanation :: "explanation_rule list \<Rightarrow> string \<Rightarrow> string option" where
  "find_explanation [] message = None"
| "find_explanation (e # rest) message =
     (if test True (exp_regex e) message then Some (exp_text e)
      else find_explanation rest message)"

record mitigation =
  action :: string
  cmd :: string

definition with_ip :: "string \<Rightarrow> string \<Rightarrow> string" where
  \<comment> \<open>\<^verbatim>\<open>ipMatch = message.match(/\d{1,3}(\.\d{1,3}){3}/); if (ipMatch) cmd += ipMatch[0]\<close>\<close>
  "with_ip command message =
     (case match False ip_token_re message of
        None \<Rightarrow> command
      | Some ipMatch \<Rightarrow> command @ whole ipMatch)"

fun find_mitigation :: "mitigation_rule list \<Rightarrow> string \<Rightarrow> mitigation option" where
  "find_mitigation [] message = None"
| "find_mitigation (mit # rest) message =
     (if test True (mit_regex mit) message
      then Some \<lparr>action = mit_action mit, cmd = with_ip (mit_command mit) message\<rparr>
      else find_mitigation rest message)"

section \<open>The severity bands\<close>

text \<open>
  A score is a number of the interval from 0 to 1, modelled as a real; the
  literals \<^verbatim>\<open>0.8\<close> and \<^verbatim>\<open>0.5\<close> are the numbers they name. An anomaly carries
  its score (the list formats it with \<^verbatim>\<open>toFixed\<close>); a log row may lack one.
\<close>

record anomaly =
  anom_id :: nat
  message :: string
  score :: real

definition sevLabel :: "real \<Rightarrow> string" where
  "sevLabel s = (if 0.8 < s then ''HIGH'' else if 0.5 < s then ''MEDIUM'' else ''Low'')"

definition sevColor :: "real \<Rightarrow> string" where
  "sevColor s = (if 0.8 < s then ''danger'' else if 0.5 < s then ''warning'' else ''info'')"



datatype level = High | Medium | Low | Pending







section \<open>The anomaly list and the alerts\<close>

record notification =
  title :: string
  body :: string

record list_item =
  badgeColor :: string
  badgeLabel :: string
  rawScore :: real
  displayMsg :: card
  explanation :: "string option"
  proposed :: "mitigation option"

text \<open>
  The state of the page the functions read and write: the flag \<open>alertsEnabled\<close>, the
  notifications shown so far, and the children of the element \<^verbatim>\<open>anomalyList\<close>,
  or nothing when the page has no such element.
\<close>

record page =
  alertsEnabled :: bool
  notifications :: "notification list"
  anomalyList :: "list_item list option"

definition sendAlert :: "string \<Rightarrow> string \<Rightarrow> page \<Rightarrow> page" where
  "sendAlert t msg st =
     (if alertsEnabled st
      then st\<lparr>notifications := notifications st @ [\<lparr>title = t, body = msg\<rparr>]\<rparr>
      else st)"

text \<open>A natural number in a template: its decimal digits.\<close>

fun digits :: "nat \<Rightarrow> string" where
  "digits n =
     (if n < 10 then [char_of (48 + n)]
      else digits (n div 10) @ [char_of (48 + n mod 10)])"

declare digits.simps [simp del]

definition render_item :: "anomaly \<Rightarrow> list_item" where
  "render_item a =
     \<lparr>badgeColor = sevColor (score a),
      badgeLabel = sevLabel (score a),
      rawScore = score a,
      displayMsg = renderLogCard (message a),
      explanation = find_explanation EXPLANATIONS (message a),
      proposed = find_mitigation MITIGATION_MATRIC (message a)\<rparr>"





definition appendChild :: "list_item \<Rightarrow> page \<Rightarrow> page" where
  "appendChild li st =
     (case anomalyList st of
        None \<Rightarrow> st
      | Some ul \<Rightarrow> st\<lparr>anomalyList := Some (ul @ [li])\<rparr>)"

definition updateAnomalyList :: "anomaly list \<Rightarrow> page \<Rightarrow> page" where
  "updateAnomalyList anoms st =
     (case anomalyList st of
        None \<Rightarrow> st
      | Some ul \<Rightarrow>
          (let st1 = st\<lparr>anomalyList := Some []\<rparr>;
               criticals = filter (\<lambda>a. 0.8 < score a) anoms;
               st2 = (if 0 < length criticals
                      then sendAlert ''High Severity Detected''
                             (''Found '' @ digits (length criticals)
                                @ '' critical anomalies in the latest analysis.'') st1
                      else st1)
           in foldl (\<lambda>s a. appendChild (render_item a) s) st2 (take 50 anoms)))"

text \<open>
  \<^verbatim>\<open>window.simulateContainment\<close>, the handler of the button \<^verbatim>\<open>Execute\<close> shown
  with a proposed mitigation. The two waits are left out: the model gives the state
  once the handler and its timer have run.
\<close>

record button =
  textContent :: string
  disabled :: bool
  className :: string

definition simulateContainment :: "string \<Rightarrow> button \<Rightarrow> page \<Rightarrow> button \<times> page" where
  "simulateContainment act btn st =
     (let b1 = btn\<lparr>textContent := high_voltage @ '' Executing...'', disabled := True,
                    className := ''btn btn-xs btn-warning shadow-sm''\<rparr>;
          b2 = b1\<lparr>textContent := check_mark @ '' Applied'',
                   className := ''btn btn-xs btn-success shadow-sm''\<rparr>;
          st' = sendAlert ''Containment Action Success'' (''Successfully executed: '' @ act) st
      in (b2\<lparr>disabled := True\<rparr>, st'))"

section \<open>The scheduler form\<close>

text \<open>
  \<^verbatim>\<open>startSchedule\<close> reads two fields with \<^verbatim>\<open>Number(...)\<close>. The reading is
  \<^verbatim>\<open>NaN\<close> (a text that is no number), a finite number (an empty field reads as 0),
  or an infinity: a text too large for a double, such as \<^verbatim>\<open>1e999\<close>, reads as
  \<^verbatim>\<open>Infinity\<close>, so that \<open>Num v\<close> stands for a finite double \<open>v\<close> only. The function sends the body below to \<^verbatim>\<open>/api/schedule/start\<close>
  through \<^verbatim>\<open>JSON.stringify\<close>, which writes a number that is not finite as
  \<^verbatim>\<open>null\<close>; what the function does with the answer is not modelled.
\<close>

datatype reading = NaN | Num real | Infinity | MinusInfinity

definition or_default :: "reading \<Rightarrow> real \<Rightarrow> reading" where
  \<comment> \<open>\<^verbatim>\<open>x || d\<close>: \<^verbatim>\<open>NaN\<close> and 0 are falsy, the infinities are not\<close>
  "or_default x d =
     (case x of
        NaN \<Rightarrow> Num d
      | Num v \<Rightarrow> if v = 0 then Num d else Num v
      | Infinity \<Rightarrow> Infinity
      | MinusInfinity \<Rightarrow> MinusInfinity)"

definition below :: "reading \<Rightarrow> real \<Rightarrow> bool" where
  \<comment> \<open>\<^verbatim>\<open>x < c\<close>\<close>
  "below x c =
     (case x of
        NaN \<Rightarrow> False
      | Num v \<Rightarrow> v < c
      | Infinity \<Rightarrow> False
      | MinusInfinity \<Rightarrow> True)"

definition stringify :: "reading \<Rightarrow> real option" where
  \<comment> \<open>a number in \<^verbatim>\<open>JSON.stringify\<close>: nothing stands for \<^verbatim>\<open>null\<close>\<close>
  "stringify x =
     (case x of
        NaN \<Rightarrow> None
      | Num v \<Rightarrow> Some v
      | Infinity \<Rightarrow> None
      | MinusInfinity \<Rightarrow> None)"

record schedule_request =
  interval_sec :: "real option"
  max_items :: "real option"

definition startSchedule :: "reading \<Rightarrow> reading \<Rightarrow> reading \<times> schedule_request" where
  \<comment> \<open>the result: the field \<^verbatim>\<open>schedInterval\<close> afterwards, and the body sent\<close>
  "startSchedule schedInterval schedMaxItems =
     (let interval = or_default schedInterval 300;
          max_items = or_default schedMaxItems 1000
      in if below interval 30
         then (Num 30, \<lparr>interval_sec = stringify (Num 30), max_items = stringify max_items\<rparr>)
         else (schedInterval,
               \<lparr>interval_sec = stringify interval, max_items = stringify max_items\<rparr>))"

section \<open>Properties\<close>

subsection \<open>Severity bands\<close>






subsection \<open>The matcher\<close>

text \<open>
  What \<open>match\<close> finds: nothing exactly when the pattern matches at no position of the
  text, and otherwise the match at the leftmost position that has one.
\<close>

lemma match_None_iff:
  "match ci r s = None \<longleftrightarrow> (\<forall>k\<le>length s. match_here ci r (drop k s) = None)"
proof (induction s)
  case Nil
  show ?case by simp
next
  case (Cons x xs)
  show ?case
  proof
    assume a: "match ci r (x # xs) = None"
    then have h: "match_here ci r (x # xs) = None" and t: "match ci r xs = None"
      by (auto split: option.splits)
    show "\<forall>k\<le>length (x # xs). match_here ci r (drop k (x # xs)) = None"
    proof (intro allI impI)
      fix k assume "k \<le> length (x # xs)"
      then show "match_here ci r (drop k (x # xs)) = None"
        using h t Cons.IH by (cases k) auto
    qed
  next
    assume a: "\<forall>k\<le>length (x # xs). match_here ci r (drop k (x # xs)) = None"
    then have h: "match_here ci r (x # xs) = None" by (metis drop0 le0)
    have "\<forall>k\<le>length xs. match_here ci r (drop k xs) = None"
    proof (intro allI impI)
      fix k assume "k \<le> length xs"
      then have "Suc k \<le> length (x # xs)" by simp
      with a have "match_here ci r (drop (Suc k) (x # xs)) = None" by blast
      then show "match_here ci r (drop k xs) = None" by simp
    qed
    with Cons.IH h show "match ci r (x # xs) = None" by simp
  qed
qed

lemma match_Some_leftmost:
  "match ci r s = Some res \<Longrightarrow>
     \<exists>k\<le>length s. match_here ci r (drop k s) = Some res
        \<and> (\<forall>j<k. match_here ci r (drop j s) = None)"
proof (induction s)
  case Nil
  then show ?case by simp
next
  case (Cons x xs)
  show ?case
  proof (cases "match_here ci r (x # xs)")
    case (Some m)
    with Cons.prems have "m = res" by simp
    with Some show ?thesis by (intro exI [of _ 0]) simp
  next
    case None
    with Cons.prems have "match ci r xs = Some res" by simp
    from Cons.IH [OF this] obtain k where k: "k \<le> length xs"
      "match_here ci r (drop k xs) = Some res" "\<forall>j<k. match_here ci r (drop j xs) = None"
      by blast
    have "\<forall>j<Suc k. match_here ci r (drop j (x # xs)) = None"
    proof (intro allI impI)
      fix j assume "j < Suc k"
      then show "match_here ci r (drop j (x # xs)) = None"
        using None k(3) by (cases j) auto
    qed
    with k show ?thesis by (intro exI [of _ "Suc k"]) simp
  qed
qed

text \<open>
  The matcher against the reading of the notation: the inputs \<open>step\<close> leaves are
  those that follow a text of the pattern at the front of the input. So an anchored
  test holds for the texts of the pattern, \<open>test\<close> holds for the texts that contain
  one, and \<open>match\<close> gives one that starts at the leftmost position where one starts.
\<close>

lemma lit_iff:
  "lit ci l s = Some r \<longleftrightarrow> (\<exists>w. s = w @ r \<and> list_all2 (char_eq ci) l w)"
proof (induction ci l s rule: lit.induct)
  case (1 ci s)
  show ?case by auto
next
  case (2 ci p ps)
  show ?case by (auto simp: list_all2_Cons1)
next
  case (3 ci p ps x xs)
  show ?case
  proof (cases "char_eq ci p x")
    case True
    have "(\<exists>w. x # xs = w @ r \<and> list_all2 (char_eq ci) (p # ps) w)
        \<longleftrightarrow> (\<exists>w. xs = w @ r \<and> list_all2 (char_eq ci) ps w)" (is "?A \<longleftrightarrow> ?B")
    proof
      assume ?A
      then obtain w where w: "x # xs = w @ r" "list_all2 (char_eq ci) (p # ps) w" by blast
      then obtain y ys where "w = y # ys" "list_all2 (char_eq ci) ps ys"
        by (auto simp: list_all2_Cons1)
      with w show ?B by auto
    next
      assume ?B
      then obtain w where "xs = w @ r" "list_all2 (char_eq ci) ps w" by blast
      with True show ?A by (intro exI [of _ "x # w"]) simp
    qed
    with 3 [OF True] True show ?thesis by simp
  next
    case False
    have "\<not> (\<exists>w. x # xs = w @ r \<and> list_all2 (char_eq ci) (p # ps) w)"
    proof
      assume "\<exists>w. x # xs = w @ r \<and> list_all2 (char_eq ci) (p # ps) w"
      then obtain w where w: "x # xs = w @ r" "list_all2 (char_eq ci) (p # ps) w" by blast
      then obtain y ys where "w = y # ys" "char_eq ci p y"
        by (auto simp: list_all2_Cons1)
      with w False show False by auto
    qed
    with False show ?thesis by simp
  qed
qed

lemma consume_iff:
  "r \<in> set (consume c lo hi s) \<longleftrightarrow>
     (\<exists>w. s = w @ r \<and> lo \<le> length w \<and> length w \<le> hi \<and> (\<forall>x\<in>set w. in_class c x))"
proof (induction c lo hi s rule: consume.induct)
  case (1 c lo hi)
  show ?case by auto
next
  case (2 c lo hi x xs)
  show ?case
  proof
    assume "r \<in> set (consume c lo hi (x # xs))"
    then consider (a) "0 < hi" "in_class c x" "r \<in> set (consume c (lo - 1) (hi - 1) xs)"
      | (b) "lo = 0" "r = x # xs"
      by (auto split: if_splits)
    then show "\<exists>w. x # xs = w @ r \<and> lo \<le> length w \<and> length w \<le> hi \<and> (\<forall>x\<in>set w. in_class c x)"
    proof cases
      case a
      with 2 obtain w where w: "xs = w @ r" "lo - 1 \<le> length w" "length w \<le> hi - 1"
        "\<forall>x\<in>set w. in_class c x" by auto
      with a show ?thesis by (intro exI [of _ "x # w"]) auto
    next
      case b
      then show ?thesis by (intro exI [of _ "[]"]) auto
    qed
  next
    assume "\<exists>w. x # xs = w @ r \<and> lo \<le> length w \<and> length w \<le> hi \<and> (\<forall>x\<in>set w. in_class c x)"
    then obtain w where w: "x # xs = w @ r" "lo \<le> length w" "length w \<le> hi"
      "\<forall>x\<in>set w. in_class c x" by blast
    show "r \<in> set (consume c lo hi (x # xs))"
    proof (cases w)
      case Nil
      with w show ?thesis by auto
    next
      case (Cons y ys)
      with w have y: "y = x" "xs = ys @ r" "in_class c x" "0 < hi"
        "lo - 1 \<le> length ys" "length ys \<le> hi - 1" "\<forall>x\<in>set ys. in_class c x"
        by auto
      with 2 have "r \<in> set (consume c (lo - 1) (hi - 1) xs)" by auto
      with y show ?thesis by simp
    qed
  qed
qed

lemma step_lang:
  "(\<exists>g'. (g', r) \<in> set (step ci re (g, s))) \<longleftrightarrow> (\<exists>w. s = w @ r \<and> lang ci re w)"
proof (induction re arbitrary: g s r)
  case (Lit l)
  show ?case using lit_iff [of ci l s r] by (auto split: option.splits)
next
  case (Cls c)
  show ?case by (cases s) auto
next
  case (Seq a b)
  show ?case
  proof
    assume "\<exists>g'. (g', r) \<in> set (step ci (Seq a b) (g, s))"
    then obtain g' g1 r1 where 1: "(g1, r1) \<in> set (step ci a (g, s))"
      and 2: "(g', r) \<in> set (step ci b (g1, r1))" by auto
    from 1 Seq.IH(1) obtain u where u: "s = u @ r1" "lang ci a u" by blast
    from 2 Seq.IH(2) obtain v where v: "r1 = v @ r" "lang ci b v" by blast
    from u v show "\<exists>w. s = w @ r \<and> lang ci (Seq a b) w"
      by (intro exI [of _ "u @ v"]) auto
  next
    assume "\<exists>w. s = w @ r \<and> lang ci (Seq a b) w"
    then obtain u v where uv: "s = (u @ v) @ r" "lang ci a u" "lang ci b v" by auto
    then have "\<exists>w. s = w @ (v @ r) \<and> lang ci a w" by auto
    with Seq.IH(1) obtain g1 where 1: "(g1, v @ r) \<in> set (step ci a (g, s))" by blast
    from uv have "\<exists>w. v @ r = w @ r \<and> lang ci b w" by auto
    with Seq.IH(2) obtain g' where "(g', r) \<in> set (step ci b (g1, v @ r))" by blast
    with 1 show "\<exists>g'. (g', r) \<in> set (step ci (Seq a b) (g, s))" by auto
  qed
next
  case (Alt a b)
  show ?case using Alt.IH(1) [of r g s] Alt.IH(2) [of r g s] by auto
next
  case (Star c)
  show ?case using consume_iff [of r c 0 "length s" s] by auto
next
  case (Plus c)
  show ?case using consume_iff [of r c 1 "length s" s] by (auto simp: Suc_le_eq)
next
  case (Rep lo hi c)
  show ?case using consume_iff [of r c lo hi s] by auto
next
  case (Group re)
  show ?case using Group.IH [of r g s] by auto
qed

lemma test_anchored_lang: "test_anchored ci re s \<longleftrightarrow> lang ci re s"
  using step_lang [of "[]" ci re None s]
  by (auto simp: test_anchored_def list_ex_iff)


lemma match_here_Some:
  assumes "match_here ci re s = Some m"
  shows "\<exists>rest. s = whole m @ rest \<and> lang ci re (whole m)"
proof -
  from assms obtain g rest sts where st: "step ci re (None, s) = (g, rest) # sts"
    and m: "whole m = take (length s - length rest) s"
    by (auto simp: match_here_def split: list.splits)
  from st have "\<exists>g'. (g', rest) \<in> set (step ci re (None, s))" by auto
  then obtain w where w: "s = w @ rest" "lang ci re w" using step_lang by blast
  with m have "whole m = w" by simp
  with w show ?thesis by blast
qed

lemma match_here_None_iff:
  "match_here ci re s = None \<longleftrightarrow> \<not> (\<exists>w rest. s = w @ rest \<and> lang ci re w)"
proof
  assume "match_here ci re s = None"
  then have e: "step ci re (None, s) = []"
    by (auto simp: match_here_def split: list.splits)
  show "\<not> (\<exists>w rest. s = w @ rest \<and> lang ci re w)"
  proof
    assume "\<exists>w rest. s = w @ rest \<and> lang ci re w"
    then obtain w rest where "s = w @ rest" "lang ci re w" by blast
    then have "\<exists>g'. (g', rest) \<in> set (step ci re (None, s))" using step_lang by blast
    with e show False by simp
  qed
next
  assume a: "\<not> (\<exists>w rest. s = w @ rest \<and> lang ci re w)"
  show "match_here ci re s = None"
  proof (cases "step ci re (None, s)")
    case Nil
    then show ?thesis by (simp add: match_here_def)
  next
    case (Cons st sts)
    obtain g rest where "st = (g, rest)" by (cases st)
    with Cons have "\<exists>g'. (g', rest) \<in> set (step ci re (None, s))" by auto
    then have "\<exists>w. s = w @ rest \<and> lang ci re w" using step_lang by blast
    with a show ?thesis by blast
  qed
qed


lemma match_found:
  assumes "match ci re s \<noteq> None"
  shows "\<exists>k. k \<le> length s \<and> match_here ci re (drop k s) \<noteq> None"
proof (rule ccontr)
  assume "\<not> (\<exists>k. k \<le> length s \<and> match_here ci re (drop k s) \<noteq> None)"
  then have "\<forall>k\<le>length s. match_here ci re (drop k s) = None" by simp
  then have "match ci re s = None" by (rule match_None_iff [THEN iffD2])
  with assms show False by simp
qed

lemma test_lang1:
  assumes "test ci re s" shows "(\<exists>pre w post. s = pre @ w @ post \<and> lang ci re w)"
proof -
  from assms have "match ci re s \<noteq> None" unfolding test_def .
  from match_found [OF this] obtain k where k: "k \<le> length s"
    and mh: "match_here ci re (drop k s) \<noteq> None"
    by (elim exE conjE)
  have "\<exists>w rest. drop k s = w @ rest \<and> lang ci re w"
  proof (rule ccontr)
    assume "\<not> (\<exists>w rest. drop k s = w @ rest \<and> lang ci re w)"
    then have "match_here ci re (drop k s) = None"
      by (rule match_here_None_iff [THEN iffD2])
    with mh show False by simp
  qed
  then obtain w rest where d: "drop k s = w @ rest" and w: "lang ci re w"
    by (elim exE conjE)
  have "s = take k s @ w @ rest"
    using append_take_drop_id [of k s, unfolded d] by (rule sym)
  then have "s = take k s @ w @ rest \<and> lang ci re w" using w by (rule conjI)
  then show ?thesis by (intro exI)
qed

lemma test_lang2:
  assumes "\<exists>pre w post. s = pre @ w @ post \<and> lang ci re w" shows "test ci re s"
proof -
  from assms obtain pre w post where s: "s = pre @ w @ post" and w: "lang ci re w"
    by (elim exE conjE)
  have d: "drop (length pre) s = w @ post" unfolding s by simp
  have l: "length pre \<le> length s" unfolding s by simp
  have "\<exists>w' rest. drop (length pre) s = w' @ rest \<and> lang ci re w'"
    using d w by (intro exI conjI)
  then have mh: "match_here ci re (drop (length pre) s) \<noteq> None"
    using match_here_None_iff [of ci re "drop (length pre) s"] by blast
  have "match ci re s \<noteq> None"
  proof
    assume "match ci re s = None"
    then have "\<forall>k\<le>length s. match_here ci re (drop k s) = None"
      by (rule match_None_iff [THEN iffD1])
    then have "length pre \<le> length s \<longrightarrow> match_here ci re (drop (length pre) s) = None"
      by (rule spec)
    then have "match_here ci re (drop (length pre) s) = None" using l by (rule mp)
    with mh show False by (rule notE)
  qed
  then show ?thesis unfolding test_def .
qed


lemma test_lang:
  "test ci re s \<longleftrightarrow> (\<exists>pre w post. s = pre @ w @ post \<and> lang ci re w)"
  using test_lang1 test_lang2 by (rule iffI)

lemma match_lang:
  assumes "match ci re s = Some m"
  shows "\<exists>pre post. s = pre @ whole m @ post \<and> lang ci re (whole m)
           \<and> (\<forall>pre' w' post'. s = pre' @ w' @ post' \<and> lang ci re w'
                 \<longrightarrow> length pre \<le> length pre')"
proof -
  from match_Some_leftmost [OF assms] obtain k where k: "k \<le> length s"
    and mh: "match_here ci re (drop k s) = Some m"
    and lm: "\<forall>j<k. match_here ci re (drop j s) = None"
    by (elim exE conjE)
  from match_here_Some [OF mh] obtain post where p: "drop k s = whole m @ post"
    and lw: "lang ci re (whole m)" by (elim exE conjE)
  have s: "s = take k s @ whole m @ post"
    using append_take_drop_id [of k s, unfolded p] by (rule sym)
  have lk: "length (take k s) = k" using k by simp
  have lp: "k \<le> length pre'" if s': "s = pre' @ w' @ post'" and w': "lang ci re w'"
    for pre' w' post'
  proof (rule ccontr)
    assume "\<not> k \<le> length pre'"
    then have "length pre' < k" by simp
    with lm have n: "match_here ci re (drop (length pre') s) = None" by simp
    have "drop (length pre') s = w' @ post'" unfolding s' by simp
    then have "\<exists>w rest. drop (length pre') s = w @ rest \<and> lang ci re w"
      using w' by (intro exI conjI)
    then have "match_here ci re (drop (length pre') s) \<noteq> None"
      using match_here_None_iff [of ci re "drop (length pre') s"] by blast
    with n show False by simp
  qed
  show ?thesis
  proof (rule exI [of _ "take k s"], rule exI [of _ post], intro conjI allI impI)
    show "s = take k s @ whole m @ post" by (rule s)
    show "lang ci re (whole m)" by (rule lw)
  next
    fix pre' w' post'
    assume a: "s = pre' @ w' @ post' \<and> lang ci re w'"
    from a have "k \<le> length pre'" by (elim conjE) (rule lp)
    then show "length (take k s) \<le> length pre'" unfolding lk .
  qed
qed

text \<open>
  Two patterns read this way: a dotted quad is four runs of one to three digits
  with dots between them, and a country token is a capital letter followed by one or
  more small letters.
\<close>

lemma char_eq_False: "char_eq False = (=)"
  by (intro ext) (simp add: char_eq_def)

lemma lit_lang: "lang False (Lit l) w \<longleftrightarrow> w = l"
proof -
  have "list_all2 (=) l w \<longleftrightarrow> l = w" by (rule list_all2_eq [symmetric])
  then show ?thesis unfolding lang.simps char_eq_False by blast
qed

lemma seq_lit_lang: "lang False (Seq (Lit l) r) w \<longleftrightarrow> (\<exists>v. w = l @ v \<and> lang False r v)"
  unfolding lang.simps(3) lit_lang by blast

lemma digits_lang:
  "lang ci (Rep 1 3 Digit) w \<longleftrightarrow> 1 \<le> length w \<and> length w \<le> 3 \<and> (\<forall>x\<in>set w. is_digit x)"
  by simp

lemma dot_octet_lang:
  "lang False (Seq (Lit ''.'') (Rep 1 3 Digit)) u \<longleftrightarrow>
     (\<exists>b. u = ''.'' @ b \<and> lang False (Rep 1 3 Digit) b)"
  by (rule seq_lit_lang)

lemma dotted_quad_lang:
  "lang False ip_token_re w \<longleftrightarrow>
     (\<exists>a b c d. w = a @ ''.'' @ b @ ''.'' @ c @ ''.'' @ d
        \<and> (\<forall>t\<in>{a, b, c, d}. 1 \<le> length t \<and> length t \<le> 3 \<and> (\<forall>x\<in>set t. is_digit x)))"
proof
  let ?T = "Seq (Lit ''.'') (Rep 1 3 Digit)"
  assume "lang False ip_token_re w"
  then have "lang False (Seq (Rep 1 3 Digit) (Seq ?T (Seq ?T ?T))) w"
    by (simp only: ip_token_re_def)
  then obtain a v1 where 1: "w = a @ v1" "lang False (Rep 1 3 Digit) a"
    "lang False (Seq ?T (Seq ?T ?T)) v1"
    unfolding lang.simps(3) [of False "Rep 1 3 Digit"] by blast
  from 1(3) obtain u2 v2 where 2: "v1 = u2 @ v2" "lang False ?T u2" "lang False (Seq ?T ?T) v2"
    unfolding lang.simps(3) [of False ?T "Seq ?T ?T"] by blast
  from 2(3) obtain u3 u4 where 3: "v2 = u3 @ u4" "lang False ?T u3" "lang False ?T u4"
    unfolding lang.simps(3) [of False ?T ?T] by blast
  from 2(2) obtain b where b: "u2 = ''.'' @ b" "lang False (Rep 1 3 Digit) b"
    unfolding dot_octet_lang by blast
  from 3(2) obtain c where c: "u3 = ''.'' @ c" "lang False (Rep 1 3 Digit) c"
    unfolding dot_octet_lang by blast
  from 3(3) obtain d where d: "u4 = ''.'' @ d" "lang False (Rep 1 3 Digit) d"
    unfolding dot_octet_lang by blast
  have "w = a @ ''.'' @ b @ ''.'' @ c @ ''.'' @ d"
    using 1(1) 2(1) 3(1) b(1) c(1) d(1) by simp
  moreover have "\<forall>t\<in>{a, b, c, d}. 1 \<le> length t \<and> length t \<le> 3 \<and> (\<forall>x\<in>set t. is_digit x)"
    using 1(2) b(2) c(2) d(2) by (simp add: digits_lang)
  ultimately show "\<exists>a b c d. w = a @ ''.'' @ b @ ''.'' @ c @ ''.'' @ d
        \<and> (\<forall>t\<in>{a, b, c, d}. 1 \<le> length t \<and> length t \<le> 3 \<and> (\<forall>x\<in>set t. is_digit x))"
    by blast
next
  let ?T = "Seq (Lit ''.'') (Rep 1 3 Digit)"
  assume "\<exists>a b c d. w = a @ ''.'' @ b @ ''.'' @ c @ ''.'' @ d
        \<and> (\<forall>t\<in>{a, b, c, d}. 1 \<le> length t \<and> length t \<le> 3 \<and> (\<forall>x\<in>set t. is_digit x))"
  then obtain a b c d where w: "w = a @ (''.'' @ b) @ (''.'' @ c) @ (''.'' @ d)"
    and o: "lang False (Rep 1 3 Digit) a" "lang False (Rep 1 3 Digit) b"
      "lang False (Rep 1 3 Digit) c" "lang False (Rep 1 3 Digit) d"
    by (auto simp: digits_lang)
  have tb: "lang False ?T (''.'' @ b)" using o(2) unfolding dot_octet_lang by blast
  have tc: "lang False ?T (''.'' @ c)" using o(3) unfolding dot_octet_lang by blast
  have td: "lang False ?T (''.'' @ d)" using o(4) unfolding dot_octet_lang by blast
  have "lang False (Seq ?T ?T) ((''.'' @ c) @ (''.'' @ d))"
    unfolding lang.simps(3) [of False ?T ?T] using tc td by blast
  then have "lang False (Seq ?T (Seq ?T ?T)) ((''.'' @ b) @ (''.'' @ c) @ (''.'' @ d))"
    unfolding lang.simps(3) [of False ?T "Seq ?T ?T"] using tb by blast
  then have "lang False (Seq (Rep 1 3 Digit) (Seq ?T (Seq ?T ?T))) w"
    unfolding lang.simps(3) [of False "Rep 1 3 Digit"] w using o(1) by blast
  then show "lang False ip_token_re w" by (simp only: ip_token_re_def)
qed

lemma country_lang:
  "lang False country_re w \<longleftrightarrow>
     (\<exists>c cs. w = c # cs \<and> in_class (Range CHR ''A'' CHR ''Z'') c \<and> cs \<noteq> []
        \<and> (\<forall>x\<in>set cs. in_class (Range CHR ''a'' CHR ''z'') x))"
proof
  assume "lang False country_re w"
  then obtain u v where "w = u @ v" "\<exists>x. u = [x] \<and> in_class (Range CHR ''A'' CHR ''Z'') x"
    "v \<noteq> []" "\<forall>x\<in>set v. in_class (Range CHR ''a'' CHR ''z'') x"
    unfolding country_re_def lang.simps by blast
  then show "\<exists>c cs. w = c # cs \<and> in_class (Range CHR ''A'' CHR ''Z'') c \<and> cs \<noteq> []
        \<and> (\<forall>x\<in>set cs. in_class (Range CHR ''a'' CHR ''z'') x)"
    by auto
next
  assume "\<exists>c cs. w = c # cs \<and> in_class (Range CHR ''A'' CHR ''Z'') c \<and> cs \<noteq> []
        \<and> (\<forall>x\<in>set cs. in_class (Range CHR ''a'' CHR ''z'') x)"
  then obtain c cs where c: "w = [c] @ cs" "in_class (Range CHR ''A'' CHR ''Z'') c" "cs \<noteq> []"
    "\<forall>x\<in>set cs. in_class (Range CHR ''a'' CHR ''z'') x" by auto
  have "lang False (Cls (Range CHR ''A'' CHR ''Z'')) [c]"
    unfolding lang.simps using c(2) by blast
  moreover have "lang False (Plus (Range CHR ''a'' CHR ''z'')) cs"
    unfolding lang.simps using c(3,4) by blast
  ultimately show "lang False country_re w"
    unfolding country_re_def lang.simps(3) c(1) by blast
qed

subsection \<open>The field normaliser\<close>

lemma split_not_Nil: "split c s \<noteq> []"
  by (induction s) (auto split: list.splits)

text \<open>
  C3. The message \<^verbatim>\<open>{'Event ID': '4625', 'Message': 'bad login'}\<close> has a comma, so it
  is first read as a web access line; no token is an address, a method or a status,
  and the card is the Windows event one, with the event id 4625 and the description
  the table has for it.
\<close>

theorem failed_logon_card:
  "includes_str ''{'Event ID': '4625', 'Message': 'bad login'}'' '',''
   \<and> web_access ''{'Event ID': '4625', 'Message': 'bad login'}'' = None
   \<and> WIN_EVENT_DESCRIPTIONS ''4625'' = Some ''Failed Logon (Invalid Credentials)''
   \<and> renderLogCard ''{'Event ID': '4625', 'Message': 'bad login'}'' =
       WindowsEvent \<lparr>eventId = ''4625'', summary = ''Failed Logon (Invalid Credentials)'',
                     realText = ''bad login''\<rparr>"
  by code_simp

subsection \<open>The rule engines\<close>

lemma find_explanation_find:
  "find_explanation rules m = map_option exp_text (find (\<lambda>r. test True (exp_regex r) m) rules)"
  by (induction rules) auto

lemma find_mitigation_find:
  "find_mitigation rules m =
     map_option (\<lambda>r. \<lparr>action = mit_action r, cmd = with_ip (mit_command r) m\<rparr>)
       (find (\<lambda>r. test True (mit_regex r) m) rules)"
  by (induction rules) auto

lemma find_first:
  "i < length xs \<Longrightarrow> P (xs ! i) \<Longrightarrow> (\<forall>j<i. \<not> P (xs ! j)) \<Longrightarrow> find P xs = Some (xs ! i)"
  by (auto simp: find_Some_iff)

text \<open>
  C5. Each engine walks its rule list in the order it is declared and gives the
  payload of the first rule whose pattern the message passes: the rule at the index
  \<open>i\<close> when it matches and no rule before it does, whatever the later rules do; and
  nothing when no rule matches. The explanation's payload is the rule's text, the
  mitigation's is the rule's action with its command (extended as in C6). A message
  passes a rule when \<^verbatim>\<open>regex.test\<close> holds, that is (\<open>test_lang\<close>) when some part of
  it is a text of the rule's pattern, letter case aside.
\<close>

theorem first_matching_rule:
  "(\<forall>i<length EXPLANATIONS.
      test True (exp_regex (EXPLANATIONS ! i)) m
      \<and> (\<forall>j<i. \<not> test True (exp_regex (EXPLANATIONS ! j)) m)
      \<longrightarrow> find_explanation EXPLANATIONS m = Some (exp_text (EXPLANATIONS ! i)))
   \<and> ((\<forall>r\<in>set EXPLANATIONS. \<not> test True (exp_regex r) m)
      \<longrightarrow> find_explanation EXPLANATIONS m = None)
   \<and> (\<forall>i<length MITIGATION_MATRIC.
      test True (mit_regex (MITIGATION_MATRIC ! i)) m
      \<and> (\<forall>j<i. \<not> test True (mit_regex (MITIGATION_MATRIC ! j)) m)
      \<longrightarrow> find_mitigation MITIGATION_MATRIC m =
           Some \<lparr>action = mit_action (MITIGATION_MATRIC ! i),
                 cmd = with_ip (mit_command (MITIGATION_MATRIC ! i)) m\<rparr>)
   \<and> ((\<forall>r\<in>set MITIGATION_MATRIC. \<not> test True (mit_regex r) m)
      \<longrightarrow> find_mitigation MITIGATION_MATRIC m = None)"
proof -
  have e1: "find_explanation EXPLANATIONS m = Some (exp_text (EXPLANATIONS ! i))"
    if "i < length EXPLANATIONS" "test True (exp_regex (EXPLANATIONS ! i)) m"
       "\<forall>j<i. \<not> test True (exp_regex (EXPLANATIONS ! j)) m" for i
    using find_first [of i EXPLANATIONS "\<lambda>r. test True (exp_regex r) m"] that
    by (simp add: find_explanation_find)
  have e2: "find_explanation EXPLANATIONS m = None"
    if "\<forall>r\<in>set EXPLANATIONS. \<not> test True (exp_regex r) m"
    using that by (simp add: find_explanation_find find_None_iff)
  have m1: "find_mitigation MITIGATION_MATRIC m =
           Some \<lparr>action = mit_action (MITIGATION_MATRIC ! i),
                 cmd = with_ip (mit_command (MITIGATION_MATRIC ! i)) m\<rparr>"
    if "i < length MITIGATION_MATRIC" "test True (mit_regex (MITIGATION_MATRIC ! i)) m"
       "\<forall>j<i. \<not> test True (mit_regex (MITIGATION_MATRIC ! j)) m" for i
    using find_first [of i MITIGATION_MATRIC "\<lambda>r. test True (mit_regex r) m"] that
    by (simp add: find_mitigation_find)
  have m2: "find_mitigation MITIGATION_MATRIC m = None"
    if "\<forall>r\<in>set MITIGATION_MATRIC. \<not> test True (mit_regex r) m"
    using that by (simp add: find_mitigation_find find_None_iff)
  show ?thesis using e1 e2 m1 m2 by blast
qed

text \<open>
  The message \<^verbatim>\<open>sudo user add bob\<close> passes two rules of each list; each engine
  answers with the earlier one.
\<close>

lemma ex_len: "length EXPLANATIONS = 8" by (simp add: EXPLANATIONS_def)
lemma mit_len: "length MITIGATION_MATRIC = 5" by (simp add: MITIGATION_MATRIC_def)

lemma below_6: "(\<forall>j<6. P j) \<longleftrightarrow> P 0 \<and> P 1 \<and> P 2 \<and> P 3 \<and> P 4 \<and> P (5::nat)"
  by (simp add: eval_nat_numeral less_Suc_eq) blast
lemma below_3: "(\<forall>j<3. P j) \<longleftrightarrow> P 0 \<and> P 1 \<and> P (2::nat)"
  by (simp add: eval_nat_numeral less_Suc_eq) blast

lemma below_2: "(\<forall>j<2. P j) \<longleftrightarrow> P 0 \<and> P (1::nat)"
  by (simp add: eval_nat_numeral less_Suc_eq) blast

theorem first_matching_rule_witness:
  "test True (exp_regex (EXPLANATIONS ! 6)) ''sudo user add bob''
   \<and> test True (exp_regex (EXPLANATIONS ! 7)) ''sudo user add bob''
   \<and> find_explanation EXPLANATIONS ''sudo user add bob'' =
       Some (warning_sign @ '' Account Change: A new user or group was created.'')
   \<and> test True (mit_regex (MITIGATION_MATRIC ! 2)) ''sudo user add bob''
   \<and> test True (mit_regex (MITIGATION_MATRIC ! 3)) ''sudo user add bob''
   \<and> find_mitigation MITIGATION_MATRIC ''sudo user add bob'' =
       Some \<lparr>action = ''Review Privileges'', cmd = ''netplwiz''\<rparr>
   \<and> find_explanation EXPLANATIONS ''disk is full'' = None
   \<and> find_mitigation MITIGATION_MATRIC ''disk is full'' = None"
proof -
  let ?m = "''sudo user add bob''"
  have a: "test True (exp_regex (EXPLANATIONS ! 6)) ?m" by code_simp
  have a': "test True (exp_regex (EXPLANATIONS ! 7)) ?m" by code_simp
  have b: "\<forall>j<6. \<not> test True (exp_regex (EXPLANATIONS ! j)) ?m"
    unfolding below_6 by code_simp
  have c: "test True (mit_regex (MITIGATION_MATRIC ! 2)) ?m" by code_simp
  have c': "test True (mit_regex (MITIGATION_MATRIC ! 3)) ?m" by code_simp
  have d: "\<forall>j<2. \<not> test True (mit_regex (MITIGATION_MATRIC ! j)) ?m"
    unfolding below_2 by code_simp
  have e: "\<forall>r\<in>set EXPLANATIONS. \<not> test True (exp_regex r) ''disk is full''" by code_simp
  have f: "\<forall>r\<in>set MITIGATION_MATRIC. \<not> test True (mit_regex r) ''disk is full''" by code_simp
  have p6: "exp_text (EXPLANATIONS ! 6) = warning_sign @ '' Account Change: A new user or group was created.''"
    by code_simp
  have p2: "\<lparr>action = mit_action (MITIGATION_MATRIC ! 2), cmd = with_ip (mit_command (MITIGATION_MATRIC ! 2)) ?m\<rparr>
     = \<lparr>action = ''Review Privileges'', cmd = ''netplwiz''\<rparr>" by code_simp
  from first_matching_rule [of ?m] a b have "find_explanation EXPLANATIONS ?m = Some (exp_text (EXPLANATIONS ! 6))"
    by (simp add: ex_len)
  moreover from first_matching_rule [of ?m] c d have "find_mitigation MITIGATION_MATRIC ?m
    = Some \<lparr>action = mit_action (MITIGATION_MATRIC ! 2), cmd = with_ip (mit_command (MITIGATION_MATRIC ! 2)) ?m\<rparr>"
    by (simp add: mit_len)
  moreover from first_matching_rule [of "''disk is full''"] e f
  have "find_explanation EXPLANATIONS ''disk is full'' = None \<and> find_mitigation MITIGATION_MATRIC ''disk is full'' = None"
    by blast
  ultimately show ?thesis using a a' c c' p6 p2 by simp
qed

text \<open>
  C6. For a message that passes a mitigation rule (the first one it passes being the
  rule at \<open>i\<close>): when the message holds a dotted quad, the command returned is the
  rule's command followed by the first such match, as it stands in the message, for
  every rule alike; when it holds none, the command is the rule's command unchanged.
  Here \<open>match\<close> is \<^verbatim>\<open>message.match\<close>: by \<open>test_lang\<close> and \<open>dotted_quad_lang\<close> it
  gives nothing exactly when no part of the message is a dotted quad, and by
  \<open>match_lang\<close> the text it gives is a dotted quad of the message that starts at the
  leftmost position where one starts.
\<close>

theorem mitigation_command:
  assumes "i < length MITIGATION_MATRIC"
    and "test True (mit_regex (MITIGATION_MATRIC ! i)) m"
    and "\<forall>j<i. \<not> test True (mit_regex (MITIGATION_MATRIC ! j)) m"
  shows "(\<forall>ipMatch. match False ip_token_re m = Some ipMatch \<longrightarrow>
            find_mitigation MITIGATION_MATRIC m =
              Some \<lparr>action = mit_action (MITIGATION_MATRIC ! i),
                    cmd = mit_command (MITIGATION_MATRIC ! i) @ whole ipMatch\<rparr>)
       \<and> (match False ip_token_re m = None \<longrightarrow>
            find_mitigation MITIGATION_MATRIC m =
              Some \<lparr>action = mit_action (MITIGATION_MATRIC ! i),
                    cmd = mit_command (MITIGATION_MATRIC ! i)\<rparr>)"
proof -
  have "find (\<lambda>r. test True (mit_regex r) m) MITIGATION_MATRIC = Some (MITIGATION_MATRIC ! i)"
    using assms by (intro find_first) auto
  then have "find_mitigation MITIGATION_MATRIC m =
      Some \<lparr>action = mit_action (MITIGATION_MATRIC ! i),
            cmd = with_ip (mit_command (MITIGATION_MATRIC ! i)) m\<rparr>"
    by (simp add: find_mitigation_find)
  then show ?thesis by (simp add: with_ip_def)
qed

text \<open>
  The rule of \<^verbatim>\<open>netplwiz\<close>, whose command takes no address, gets the address
  appended all the same; \<^verbatim>\<open>query user\<close> stays as it is for a message without one.
\<close>

theorem mitigation_command_witness:
  "find_mitigation MITIGATION_MATRIC ''user add bob from 1234.5.6.7.8'' =
     Some \<lparr>action = ''Review Privileges'', cmd = ''netplwiz234.5.6.7''\<rparr>
   \<and> find_mitigation MITIGATION_MATRIC ''sudo reboot'' =
     Some \<lparr>action = ''Audit Session'', cmd = ''query user''\<rparr>"
proof -
  let ?m = "''user add bob from 1234.5.6.7.8''"
  let ?n = "''sudo reboot''"
  have a: "(2::nat) < length MITIGATION_MATRIC" by (simp add: mit_len)
  have b: "test True (mit_regex (MITIGATION_MATRIC ! 2)) ?m" by code_simp
  have c: "\<forall>j<2. \<not> test True (mit_regex (MITIGATION_MATRIC ! j)) ?m"
    unfolding below_2 by code_simp
  have d: "match False ip_token_re ?m = Some \<lparr>whole = ''234.5.6.7'', group1 = None\<rparr>"
    by code_simp
  have e: "mit_action (MITIGATION_MATRIC ! 2) = ''Review Privileges''
      \<and> mit_command (MITIGATION_MATRIC ! 2) = ''netplwiz''" by code_simp
  have a': "(3::nat) < length MITIGATION_MATRIC" by (simp add: mit_len)
  have b': "test True (mit_regex (MITIGATION_MATRIC ! 3)) ?n" by code_simp
  have c': "\<forall>j<3. \<not> test True (mit_regex (MITIGATION_MATRIC ! j)) ?n"
    unfolding below_3 by code_simp
  have d': "match False ip_token_re ?n = None" by code_simp
  have e': "mit_action (MITIGATION_MATRIC ! 3) = ''Audit Session''
      \<and> mit_command (MITIGATION_MATRIC ! 3) = ''query user''" by code_simp
  from mitigation_command [OF a b c] d e
  have 1: "find_mitigation MITIGATION_MATRIC ?m =
     Some \<lparr>action = ''Review Privileges'', cmd = ''netplwiz234.5.6.7''\<rparr>" by simp
  from mitigation_command [OF a' b' c'] d' e'
  have 2: "find_mitigation MITIGATION_MATRIC ?n =
     Some \<lparr>action = ''Audit Session'', cmd = ''query user''\<rparr>" by simp
  from 1 2 show ?thesis by simp
qed

subsection \<open>The cards of the normaliser\<close>

lemma synthesized_total: "\<exists>s. synthesized t = Inr s"
  by (cases "split newline t") (simp_all add: synthesized_def split_not_Nil)

lemma step_keyed_group:
  "(g', r) \<in> set (step ci (keyed_re key b) (g, s)) \<Longrightarrow> g' \<noteq> None"
  by (auto simp: keyed_re_def split: option.splits)

lemma match_here_keyed_group:
  "match_here ci (keyed_re key b) s = Some m \<Longrightarrow> group1 m \<noteq> None"
proof -
  assume a: "match_here ci (keyed_re key b) s = Some m"
  then obtain g rest sts where st: "step ci (keyed_re key b) (None, s) = (g, rest) # sts"
    and m: "group1 m = g"
    by (auto simp: match_here_def split: list.splits)
  from st have "(g, rest) \<in> set (step ci (keyed_re key b) (None, s))" by simp
  from step_keyed_group [OF this] m show ?thesis by simp
qed

lemma match_keyed_group:
  "match ci (keyed_re key b) s = Some m \<Longrightarrow> group1 m \<noteq> None"
  using match_Some_leftmost [of ci "keyed_re key b" s m] match_here_keyed_group by blast

lemma taskRaw_defined: "\<exists>t. taskRaw_of m = Some t"
  using match_keyed_group [of False "''Message''" "Star (NotChar quote)" m]
    match_keyed_group [of False "''Task Category''" "Star (NotChar quote)" m]
  by (auto simp: taskRaw_of_def message_re_def task_category_re_def Let_def split: option.splits)

lemma realText_total: "\<exists>t. realText_of m = Inr t"
  using taskRaw_defined [of m] by (auto simp: realText_of_def)

lemma win_event_total: "\<exists>w. win_event m = Inr w"
proof -
  obtain t where t: "realText_of m = Inr t" using realText_total by blast
  obtain s where s: "synthesized t = Inr s" using synthesized_total by blast
  show ?thesis by (simp add: win_event_def Let_def t s)
qed

lemma trim_Nil: "trim [] = []"
  by (simp add: trim_def)

lemma ip_token_nonempty: "\<not> test_anchored False ip_token_re []" by code_simp
lemma method_nonempty: "\<not> test_anchored True method_re []" by code_simp
lemma status_nonempty: "\<not> test_anchored False status_re []" by code_simp

lemma found_truthy:
  assumes "find (\<lambda>p. P (trim p)) parts = Some p" and "\<not> P []"
  shows "truthy (Some p)"
proof -
  from assms(1) have "P (trim p)" by (auto simp: find_Some_iff)
  with assms(2) have "p \<noteq> []" using trim_Nil by auto
  then show ?thesis by simp
qed

lemma truthy_find_ip: "truthy (find_ip parts) \<longleftrightarrow> find_ip parts \<noteq> None"
  using found_truthy [of "test_anchored False ip_token_re" parts] ip_token_nonempty
  by (cases "find_ip parts") (auto simp: find_ip_def)

lemma truthy_find_method: "truthy (find_method parts) \<longleftrightarrow> find_method parts \<noteq> None"
  using found_truthy [of "test_anchored True method_re" parts] method_nonempty
  by (cases "find_method parts") (auto simp: find_method_def)

lemma truthy_find_status: "truthy (find_status parts) \<longleftrightarrow> find_status parts \<noteq> None"
  using found_truthy [of "test_anchored False status_re" parts] status_nonempty
  by (cases "find_status parts") (auto simp: find_status_def)

lemma web_access_None_iff:
  "web_access m = None \<longleftrightarrow>
     (\<not> includes_str m '','' \<or>
      (find_ip (split CHR '','' m) = None \<and> find_method (split CHR '','' m) = None
        \<and> find_status (split CHR '','' m) = None))"
  by (auto simp: web_access_def Let_def truthy_find_ip truthy_find_method truthy_find_status)

lemma renderLogCard_Generic_iff:
  "renderLogCard m = Generic \<longleftrightarrow> web_access m = None \<and> \<not> win_shaped m"
  using win_event_total [of m]
  by (auto simp: renderLogCard_def split: option.splits sum.splits)

text \<open>
  C2, amended. For every message \<^verbatim>\<open>renderLogCard\<close> returns a card: no step of the
  Windows event branch raises on a string, so its \<^verbatim>\<open>catch\<close> is never entered. The
  card is the generic one exactly when the message gives no web access card and is
  not Windows-shaped; and a message gives no web access card exactly when it has no
  comma or none of its tokens is an address, a method or a status. So a message with
  a comma and no such token goes on to the Windows event test, and is generic only
  when that test fails too.
\<close>

theorem normaliser_total:
  "(\<exists>w. win_event m = Inr w)
   \<and> (renderLogCard m = Generic \<longleftrightarrow> web_access m = None \<and> \<not> win_shaped m)
   \<and> (web_access m = None \<longleftrightarrow>
        (\<not> includes_str m '','' \<or>
          (find_ip (split CHR '','' m) = None \<and> find_method (split CHR '','' m) = None
            \<and> find_status (split CHR '','' m) = None)))"
  using win_event_total renderLogCard_Generic_iff web_access_None_iff by blast

theorem normaliser_total_witness:
  "includes_str ''hello, world'' '','' \<and> renderLogCard ''hello, world'' = Generic
   \<and> renderLogCard ''disk is full'' = Generic"
proof -
  have a: "includes_str ''hello, world'' '',''" by code_simp
  have b: "find_ip (split CHR '','' ''hello, world'') = None
     \<and> find_method (split CHR '','' ''hello, world'') = None
     \<and> find_status (split CHR '','' ''hello, world'') = None" by code_simp
  have c: "\<not> win_shaped ''hello, world''" by code_simp
  have d: "\<not> includes_str ''disk is full'' '',''" by code_simp
  have e: "\<not> win_shaped ''disk is full''" by code_simp
  from normaliser_total [of "''hello, world''"] b c
  have 1: "renderLogCard ''hello, world'' = Generic" by blast
  from normaliser_total [of "''disk is full''"] d e
  have 2: "renderLogCard ''disk is full'' = Generic" by blast
  from a 1 2 show ?thesis by simp
qed

text \<open>
  As stated, C2 fails: a message with a comma in which no address, method or status
  is found does not always get the generic card.
\<close>

theorem comma_message_not_generic:
  "includes_str ''{'Event ID': '4625', 'Message': 'bad login'}'' '',''
   \<and> find_ip (split CHR '','' ''{'Event ID': '4625', 'Message': 'bad login'}'') = None
   \<and> find_method (split CHR '','' ''{'Event ID': '4625', 'Message': 'bad login'}'') = None
   \<and> find_status (split CHR '','' ''{'Event ID': '4625', 'Message': 'bad login'}'') = None
   \<and> renderLogCard ''{'Event ID': '4625', 'Message': 'bad login'}'' \<noteq> Generic"
  by code_simp

lemma split_hd: "\<exists>rest. split c s = takeWhile (\<lambda>x. x \<noteq> c) s # rest"
  by (induction s) (auto split: list.splits)

lemma synthesized_eq:
  "synthesized t =
     Inr (take 80 (takeWhile (\<lambda>c. c \<noteq> newline) t) @ (if 80 < length t then ''...'' else []))"
  using split_hd [of newline t] by (auto simp: synthesized_def)

lemma takeWhile_le: "length (takeWhile P xs) \<le> length xs"
  by (induction xs) auto

text \<open>
  C4, amended. For a message that takes the Windows event branch and whose event id
  the table does not have, the description is the first line of the text cut to 80
  characters, followed by the mark \<^verbatim>\<open>...\<close> exactly when the whole text (not its
  first line) is longer than 80 characters, which it is whenever the first line was
  cut; when that description is empty or shorter than 5 characters once trimmed, the
  description is \<^verbatim>\<open>Windows Event\<close> and the event id.
\<close>

theorem synthesized_description:
  assumes "web_access m = None" and "win_shaped m"
    and "WIN_EVENT_DESCRIPTIONS (eventId_of m) = None"
  shows "\<exists>t. realText_of m = Inr t
           \<and> renderLogCard m =
               WindowsEvent
                \<lparr>eventId = eventId_of m,
                 summary =
                   (let line = takeWhile (\<lambda>c. c \<noteq> newline) t;
                        s = take 80 line @ (if 80 < length t then ''...'' else [])
                    in if s = [] \<or> length (trim s) < 5
                       then ''Windows Event '' @ eventId_of m else s),
                 realText = t\<rparr>
           \<and> (80 < length (takeWhile (\<lambda>c. c \<noteq> newline) t) \<longrightarrow> 80 < length t)"
proof -
  obtain t where t: "realText_of m = Inr t" using realText_total by blast
  have "renderLogCard m =
               WindowsEvent
                \<lparr>eventId = eventId_of m,
                 summary =
                   (let line = takeWhile (\<lambda>c. c \<noteq> newline) t;
                        s = take 80 line @ (if 80 < length t then ''...'' else [])
                    in if s = [] \<or> length (trim s) < 5
                       then ''Windows Event '' @ eventId_of m else s),
                 realText = t\<rparr>"
    using assms by (simp add: renderLogCard_def win_event_def t synthesized_eq Let_def)
  moreover have "80 < length (takeWhile (\<lambda>c. c \<noteq> newline) t) \<longrightarrow> 80 < length t"
    using takeWhile_le [of "\<lambda>c. c \<noteq> newline" t] by linarith
  ultimately show ?thesis using t by blast
qed

text \<open>
  As stated, C4 fails: the mark \<^verbatim>\<open>...\<close> follows the length of the whole text, not
  that of its first line. Here the message text is \<^verbatim>\<open>Logon\<close>, the two-character
  escapes for a line break, and 80 more characters; the first line, \<^verbatim>\<open>Logon\<close>, is
  not cut, and the description still ends in the mark.
\<close>

theorem ellipsis_without_truncation:
  "WIN_EVENT_DESCRIPTIONS
      (eventId_of (''{'Event ID': '1', 'Message': 'Logon'' @ [backslash, CHR ''r'', backslash, CHR ''n'']
        @ replicate 80 (CHR ''x'') @ [quote, CHR ''}''])) = None
   \<and> realText_of
      (''{'Event ID': '1', 'Message': 'Logon'' @ [backslash, CHR ''r'', backslash, CHR ''n'']
        @ replicate 80 (CHR ''x'') @ [quote, CHR ''}'']) = Inr (''Logon'' @ [newline] @ replicate 80 (CHR ''x''))
   \<and> takeWhile (\<lambda>c. c \<noteq> newline) (''Logon'' @ [newline] @ replicate 80 (CHR ''x'')) = ''Logon''
   \<and> renderLogCard
      (''{'Event ID': '1', 'Message': 'Logon'' @ [backslash, CHR ''r'', backslash, CHR ''n'']
        @ replicate 80 (CHR ''x'') @ [quote, CHR ''}'']) =
       WindowsEvent \<lparr>eventId = ''1'', summary = ''Logon...'',
                     realText = ''Logon'' @ [newline] @ replicate 80 (CHR ''x'')\<rparr>"
  by code_simp

theorem synthesized_description_witness:
  "renderLogCard ''{'Event ID': '9999', 'Message': 'Custom event text'}'' =
     WindowsEvent \<lparr>eventId = ''9999'', summary = ''Custom event text'',
                   realText = ''Custom event text''\<rparr>
   \<and> renderLogCard ''{'Event ID': '9999', 'Message': 'abc'}'' =
     WindowsEvent \<lparr>eventId = ''9999'', summary = ''Windows Event 9999'', realText = ''abc''\<rparr>"
proof -
  let ?m = "''{'Event ID': '9999', 'Message': 'Custom event text'}''"
  let ?n = "''{'Event ID': '9999', 'Message': 'abc'}''"
  have a: "web_access ?m = None" "win_shaped ?m" "WIN_EVENT_DESCRIPTIONS (eventId_of ?m) = None"
    by code_simp+
  have b: "eventId_of ?m = ''9999''" "realText_of ?m = Inr ''Custom event text''" by code_simp+
  have a': "web_access ?n = None" "win_shaped ?n" "WIN_EVENT_DESCRIPTIONS (eventId_of ?n) = None"
    by code_simp+
  have b': "eventId_of ?n = ''9999''" "realText_of ?n = Inr ''abc''" by code_simp+
  have t: "trim ''Custom event text'' = ''Custom event text''" "trim ''abc'' = ''abc''"
    by code_simp+
  have 1: "renderLogCard ?m = WindowsEvent \<lparr>eventId = ''9999'', summary = ''Custom event text'',
                   realText = ''Custom event text''\<rparr>"
    using synthesized_description [OF a] by (auto simp add: b t newline_def)
  have 2: "renderLogCard ?n = WindowsEvent \<lparr>eventId = ''9999'', summary = ''Windows Event 9999'',
       realText = ''abc''\<rparr>"
    using synthesized_description [OF a'] by (auto simp add: b' t newline_def)
  from 1 2 show ?thesis by simp
qed

subsection \<open>The scheduler form\<close>

text \<open>
  C8, amended. The interval sent is never a number below 30. A reading below 30
  other than 0 is sent as 30 (and the field is rewritten to 30), so 10 gives 30; a
  finite reading of 30 or more is sent as it is; a reading of 0, or one that is not a
  number, is replaced by the default 300 before the comparison, and 300 is sent; the
  reading \<^verbatim>\<open>Infinity\<close>, and no other, is sent as \<^verbatim>\<open>null\<close>.
\<close>

theorem schedule_interval:
  "(\<forall>v. interval_sec (snd (startSchedule r mx)) = Some v \<longrightarrow> 30 \<le> v)
   \<and> (interval_sec (snd (startSchedule r mx)) = None \<longleftrightarrow> r = Infinity)
   \<and> (\<forall>v. r = Num v \<and> v < 30 \<and> v \<noteq> 0 \<longrightarrow>
         interval_sec (snd (startSchedule r mx)) = Some 30 \<and> fst (startSchedule r mx) = Num 30)
   \<and> (r = MinusInfinity \<longrightarrow>
         interval_sec (snd (startSchedule r mx)) = Some 30 \<and> fst (startSchedule r mx) = Num 30)
   \<and> (\<forall>v. r = Num v \<and> 30 \<le> v \<longrightarrow>
         interval_sec (snd (startSchedule r mx)) = Some v \<and> fst (startSchedule r mx) = r)
   \<and> (r = Num 0 \<or> r = NaN \<longrightarrow> interval_sec (snd (startSchedule r mx)) = Some 300)
   \<and> interval_sec (snd (startSchedule (Num 10) mx)) = Some 30"
proof (cases r)
  case NaN
  then show ?thesis
    by (simp add: startSchedule_def or_default_def below_def stringify_def)
next
  case (Num v)
  then show ?thesis
    by (cases "v = 0"; cases "v < 30")
      (simp_all add: startSchedule_def or_default_def below_def stringify_def)
next
  case Infinity
  then show ?thesis
    by (simp add: startSchedule_def or_default_def below_def stringify_def)
next
  case MinusInfinity
  then show ?thesis
    by (simp add: startSchedule_def or_default_def below_def stringify_def)
qed

theorem schedule_interval_witness:
  "interval_sec (snd (startSchedule (Num 10) (Num 500))) = Some 30
   \<and> fst (startSchedule (Num 10) (Num 500)) = Num 30
   \<and> interval_sec (snd (startSchedule (Num 45) (Num 500))) = Some 45
   \<and> interval_sec (snd (startSchedule NaN (Num 500))) = Some 300
   \<and> interval_sec (snd (startSchedule MinusInfinity (Num 500))) = Some 30
   \<and> interval_sec (snd (startSchedule Infinity (Num 500))) = None"
proof -
  have a: "Num 10 = Num 10 \<and> (10::real) < 30 \<and> (10::real) \<noteq> 0" by simp
  have b: "Num 45 = Num 45 \<and> (30::real) \<le> 45" by simp
  from schedule_interval [of "Num 10" "Num 500"]
  have "\<forall>v. Num 10 = Num v \<and> v < 30 \<and> v \<noteq> 0 \<longrightarrow>
         interval_sec (snd (startSchedule (Num 10) (Num 500))) = Some 30
         \<and> fst (startSchedule (Num 10) (Num 500)) = Num 30"
    by (elim conjE)
  then have "Num 10 = Num 10 \<and> (10::real) < 30 \<and> (10::real) \<noteq> 0 \<longrightarrow>
         interval_sec (snd (startSchedule (Num 10) (Num 500))) = Some 30
         \<and> fst (startSchedule (Num 10) (Num 500)) = Num 30"
    by (elim allE [of _ 10])
  then have 1: "interval_sec (snd (startSchedule (Num 10) (Num 500))) = Some 30
         \<and> fst (startSchedule (Num 10) (Num 500)) = Num 30"
    using a by (rule mp)
  from schedule_interval [of "Num 45" "Num 500"]
  have "\<forall>v. Num 45 = Num v \<and> 30 \<le> v \<longrightarrow>
         interval_sec (snd (startSchedule (Num 45) (Num 500))) = Some v
         \<and> fst (startSchedule (Num 45) (Num 500)) = Num 45"
    by (elim conjE)
  then have "Num 45 = Num 45 \<and> (30::real) \<le> 45 \<longrightarrow>
         interval_sec (snd (startSchedule (Num 45) (Num 500))) = Some 45
         \<and> fst (startSchedule (Num 45) (Num 500)) = Num 45"
    by (elim allE [of _ 45])
  then have 2: "interval_sec (snd (startSchedule (Num 45) (Num 500))) = Some 45
         \<and> fst (startSchedule (Num 45) (Num 500)) = Num 45"
    using b by (rule mp)
  from schedule_interval [of NaN "Num 500"]
  have "NaN = Num 0 \<or> NaN = NaN \<longrightarrow>
         interval_sec (snd (startSchedule NaN (Num 500))) = Some 300"
    by (elim conjE)
  then have 3: "interval_sec (snd (startSchedule NaN (Num 500))) = Some 300" by simp
  from schedule_interval [of MinusInfinity "Num 500"]
  have "MinusInfinity = MinusInfinity \<longrightarrow>
         interval_sec (snd (startSchedule MinusInfinity (Num 500))) = Some 30
         \<and> fst (startSchedule MinusInfinity (Num 500)) = Num 30"
    by (elim conjE)
  then have 4: "interval_sec (snd (startSchedule MinusInfinity (Num 500))) = Some 30" by simp
  from schedule_interval [of Infinity "Num 500"]
  have "interval_sec (snd (startSchedule Infinity (Num 500))) = None \<longleftrightarrow> Infinity = Infinity"
    by (elim conjE)
  then have 5: "interval_sec (snd (startSchedule Infinity (Num 500))) = None" by simp
  from 1 2 3 4 5 show ?thesis by (elim conjE) (intro conjI; assumption)
qed

text \<open>
  As stated, C8 fails at the interval 0: it is below 30, and 300 is sent, not 30.
  And for a field that reads as \<^verbatim>\<open>Infinity\<close> no number is sent at all.
\<close>

theorem zero_interval_not_clamped:
  "(0::real) < 30 \<and> interval_sec (snd (startSchedule (Num 0) NaN)) = Some 300
   \<and> interval_sec (snd (startSchedule (Num 0) NaN)) \<noteq> Some 30
   \<and> interval_sec (snd (startSchedule Infinity NaN)) = None"
  by (simp add: startSchedule_def or_default_def below_def stringify_def)

subsection \<open>The country of a web access card\<close>

text \<open>
  C9, amended. For a message that gets a web access card, the country is the first
  token, among those the commas separate, whose trimmed text matches
  \<^verbatim>\<open>^[A-Z][a-z]+$\<close>, whose own length (white space included) is above 3, and
  that contains neither \<^verbatim>\<open>Chrome\<close> nor \<^verbatim>\<open>Safari\<close>; there is no country when no
  token is such. The length is that of the token as it stands, so a short name is
  left out only when the token with its white space has at most 3 characters. (By
  \<open>test_anchored_lang\<close> and \<open>country_lang\<close> the pattern holds of a capital letter
  followed by one or more small letters, and of nothing else.)
\<close>

theorem country_token:
  assumes "web_access m = Some w"
  shows "(\<forall>p. country w = Some p \<longleftrightarrow>
            (\<exists>i<length (split CHR '','' m).
                split CHR '','' m ! i = p
                \<and> test_anchored False country_re (trim p) \<and> 3 < length p
                \<and> \<not> includes_str p ''Chrome'' \<and> \<not> includes_str p ''Safari''
                \<and> (\<forall>j<i. \<not> (test_anchored False country_re (trim (split CHR '','' m ! j))
                             \<and> 3 < length (split CHR '','' m ! j)
                             \<and> \<not> includes_str (split CHR '','' m ! j) ''Chrome''
                             \<and> \<not> includes_str (split CHR '','' m ! j) ''Safari''))))
       \<and> (country w = None \<longleftrightarrow>
            (\<forall>p\<in>set (split CHR '','' m).
               \<not> (test_anchored False country_re (trim p) \<and> 3 < length p
                  \<and> \<not> includes_str p ''Chrome'' \<and> \<not> includes_str p ''Safari'')))"
proof -
  from assms have c: "country w = find country_ok (split CHR '','' m)"
    by (auto simp: web_access_def Let_def find_country_def split: if_splits)
  show ?thesis
    unfolding c find_Some_iff find_None_iff country_ok_def by blast
qed

theorem country_token_witness:
  "web_access ''10.0.0.1,Usa,Chrome,Germany,France'' =
     Some \<lparr>country = Some ''Germany'', ip = Some ''10.0.0.1'', http_method = None,
           status = None, statusColor = ''secondary''\<rparr>
   \<and> (\<exists>i<length (split CHR '','' ''10.0.0.1,Usa,Chrome,Germany,France'').
         split CHR '','' ''10.0.0.1,Usa,Chrome,Germany,France'' ! i = ''Germany'')"
proof -
  let ?m = "''10.0.0.1,Usa,Chrome,Germany,France''"
  let ?w = "\<lparr>country = Some ''Germany'', ip = Some ''10.0.0.1'', http_method = None,
           status = None, statusColor = ''secondary''\<rparr>"
  have a: "web_access ?m = Some ?w" by code_simp
  have c: "country ?w = Some ''Germany''" by simp
  obtain i where "i < length (split CHR '','' ?m)" "split CHR '','' ?m ! i = ''Germany''"
    using conjunct1 [OF country_token [OF a], THEN spec, of "''Germany''"] c by blast
  with a show ?thesis by blast
qed

text \<open>
  As stated, C9 fails: the token \<^verbatim>\<open> Usa\<close>, whose trimmed text has 3 characters, is
  not left out, since with its leading space it has 4.
\<close>

theorem padded_short_country:
  "web_access ''10.0.0.1, Usa'' =
     Some \<lparr>country = Some '' Usa'', ip = Some ''10.0.0.1'', http_method = None,
           status = None, statusColor = ''secondary''\<rparr>
   \<and> trim '' Usa'' = ''Usa'' \<and> length (trim '' Usa'') = 3
   \<and> test_anchored False country_re (trim '' Usa'')"
  by code_simp

subsection \<open>The anomaly list and the alerts\<close>

lemma appendChild_fold:
  "anomalyList st = Some ul \<Longrightarrow>
     foldl (\<lambda>s a. appendChild (render_item a) s) st xs =
       st\<lparr>anomalyList := Some (ul @ map render_item xs)\<rparr>"
proof (induction xs arbitrary: st ul)
  case Nil
  then show ?case by simp
next
  case (Cons a xs)
  have "anomalyList (appendChild (render_item a) st) = Some (ul @ [render_item a])"
    using Cons.prems by (simp add: appendChild_def)
  from Cons.IH [OF this] show ?case
    using Cons.prems by (simp add: appendChild_def)
qed

lemma updateAnomalyList_eq:
  assumes "anomalyList st = Some ul"
  shows "updateAnomalyList anoms st =
           st\<lparr>notifications :=
                 notifications st @
                 (if alertsEnabled st \<and> (\<exists>a\<in>set anoms. 0.8 < score a)
                  then [\<lparr>title = ''High Severity Detected'',
                         body = ''Found '' @ digits (length (filter (\<lambda>a. 0.8 < score a) anoms))
                                  @ '' critical anomalies in the latest analysis.''\<rparr>]
                  else []),
               anomalyList := Some (map render_item (take 50 anoms))\<rparr>"
  using assms
  by (auto simp add: updateAnomalyList_def Let_def sendAlert_def
      appendChild_fold [where ul = "[]"] filter_empty_conv)

text \<open>
  C7, amended. On a page that has the anomaly list, \<^verbatim>\<open>updateAnomalyList\<close> sends
  one alert \<^verbatim>\<open>High Severity Detected\<close> when alerts are enabled and some anomaly of
  the batch has a score above 0.8, and no alert otherwise; on a page without the
  list it returns at once and changes nothing. The alert of a mitigation is not sent
  when the mitigation is proposed (shown in the list) but when it is executed:
  \<^verbatim>\<open>simulateContainment\<close> sends \<^verbatim>\<open>Containment Action Success\<close>, if alerts are
  enabled.
\<close>

theorem alerts_sent:
  "(anomalyList st \<noteq> None \<longrightarrow>
      notifications (updateAnomalyList anoms st) =
        notifications st @
        (if alertsEnabled st \<and> (\<exists>a\<in>set anoms. 0.8 < score a)
         then [\<lparr>title = ''High Severity Detected'',
                body = ''Found '' @ digits (length (filter (\<lambda>a. 0.8 < score a) anoms))
                         @ '' critical anomalies in the latest analysis.''\<rparr>]
         else []))
   \<and> (anomalyList st = None \<longrightarrow> updateAnomalyList anoms st = st)
   \<and> notifications (snd (simulateContainment act btn st)) =
        notifications st @
        (if alertsEnabled st
         then [\<lparr>title = ''Containment Action Success'',
                body = ''Successfully executed: '' @ act\<rparr>]
         else [])"
proof (intro conjI impI)
  assume "anomalyList st \<noteq> None"
  then obtain ul where "anomalyList st = Some ul" by auto
  from updateAnomalyList_eq [OF this, of anoms]
  show "notifications (updateAnomalyList anoms st) =
        notifications st @
        (if alertsEnabled st \<and> (\<exists>a\<in>set anoms. 0.8 < score a)
         then [\<lparr>title = ''High Severity Detected'',
                body = ''Found '' @ digits (length (filter (\<lambda>a. 0.8 < score a) anoms))
                         @ '' critical anomalies in the latest analysis.''\<rparr>]
         else [])"
    by simp
next
  assume "anomalyList st = None"
  then show "updateAnomalyList anoms st = st" by (simp add: updateAnomalyList_def)
next
  show "notifications (snd (simulateContainment act btn st)) =
        notifications st @
        (if alertsEnabled st
         then [\<lparr>title = ''Containment Action Success'',
                body = ''Successfully executed: '' @ act\<rparr>]
         else [])"
    by (simp add: simulateContainment_def sendAlert_def Let_def)
qed



lemma digits_1: "digits (Suc 0) = ''1''" by code_simp

theorem alerts_sent_witness:
  "notifications
     (updateAnomalyList
        [\<lparr>anom_id = 1, message = ''disk is full'', score = 0.9\<rparr>,
         \<lparr>anom_id = 2, message = ''disk is full'', score = 0.3\<rparr>]
        \<lparr>alertsEnabled = True, notifications = [], anomalyList = Some []\<rparr>) =
     [\<lparr>title = ''High Severity Detected'',
       body = ''Found 1 critical anomalies in the latest analysis.''\<rparr>]
   \<and> notifications
     (snd (simulateContainment ''Block IP''
        \<lparr>textContent = high_voltage @ '' Execute'', disabled = False,
          className = ''btn btn-xs btn-danger shadow-sm''\<rparr>
        \<lparr>alertsEnabled = True, notifications = [], anomalyList = Some []\<rparr>)) =
     [\<lparr>title = ''Containment Action Success'', body = ''Successfully executed: Block IP''\<rparr>]"
  using alerts_sent
    [of "\<lparr>alertsEnabled = True, notifications = [], anomalyList = Some []\<rparr>"
        "[\<lparr>anom_id = 1, message = ''disk is full'', score = 0.9\<rparr>,
          \<lparr>anom_id = 2, message = ''disk is full'', score = 0.3\<rparr>]"
        "''Block IP''"
        "\<lparr>textContent = high_voltage @ '' Execute'', disabled = False,
          className = ''btn btn-xs btn-danger shadow-sm''\<rparr>"]
  by (simp add: digits_1)

text \<open>
  As stated, C7 fails: with alerts enabled, a mitigation is proposed for this anomaly
  of score 0.6 and no notification is sent; and on a page without the anomaly list an
  anomaly of score 0.9 raises no alert either.
\<close>

lemma block_ip_proposed:
  "find_mitigation MITIGATION_MATRIC ''Failed password for root from 10.0.0.5'' =
     Some \<lparr>action = ''Block IP'',
           cmd = block_rule @ [dquote] @ ''Block IP'' @ [dquote] @ block_tail @ ''10.0.0.5''\<rparr>"
  by code_simp

theorem proposal_without_alert:
  "proposed (render_item
      \<lparr>anom_id = 1, message = ''Failed password for root from 10.0.0.5'', score = 0.6\<rparr>) =
     Some \<lparr>action = ''Block IP'',
           cmd = block_rule @ [dquote] @ ''Block IP'' @ [dquote] @ block_tail @ ''10.0.0.5''\<rparr>
   \<and> anomalyList
      (updateAnomalyList
         [\<lparr>anom_id = 1, message = ''Failed password for root from 10.0.0.5'', score = 0.6\<rparr>]
         \<lparr>alertsEnabled = True, notifications = [], anomalyList = Some []\<rparr>) =
     Some [render_item
         \<lparr>anom_id = 1, message = ''Failed password for root from 10.0.0.5'', score = 0.6\<rparr>]
   \<and> notifications
      (updateAnomalyList
         [\<lparr>anom_id = 1, message = ''Failed password for root from 10.0.0.5'', score = 0.6\<rparr>]
         \<lparr>alertsEnabled = True, notifications = [], anomalyList = Some []\<rparr>) = []
   \<and> notifications
      (updateAnomalyList
         [\<lparr>anom_id = 2, message = ''disk is full'', score = 0.9\<rparr>]
         \<lparr>alertsEnabled = True, notifications = [], anomalyList = None\<rparr>) = []"
proof -
  let ?st = "\<lparr>alertsEnabled = True, notifications = [], anomalyList = Some []\<rparr>"
  have a: "anomalyList ?st = Some []" by simp
  show ?thesis
    by (simp add: updateAnomalyList_eq [OF a] render_item_def block_ip_proposed)
      (simp add: updateAnomalyList_def)
qed



end
